theory Spec2Isabelle
  imports Main
begin

section \<open>The stage runner of \<^verbatim>\<open>main.go\<close>\<close>

text \<open>
  The program runs a fixed list of stages one after the other inside a Bubble Tea event
  loop. The embedding follows \<^verbatim>\<open>src/main.go\<close> function by function. The package-level
  variables \<^verbatim>\<open>stages\<close>, \<^verbatim>\<open>stageIndex\<close> and \<^verbatim>\<open>commandLog\<close>, the log file and the standard
  output are fields of one state record that every function takes and returns.

  Modelling decisions:
  \<^item> a Go \<^verbatim>\<open>error\<close> is \<open>string option\<close>: \<open>None\<close> is \<^verbatim>\<open>nil\<close>, \<open>Some t\<close> an error whose
    \<^verbatim>\<open>Error()\<close> text is \<open>t\<close>;
  \<^item> a function-typed field is \<open>NilFunc\<close> (the zero value) or \<open>Func r\<close>, a function
    that returns \<open>r\<close> when it is called and touches nothing else; calling \<open>NilFunc\<close> panics;
  \<^item> a panic is the left summand of the result;
  \<^item> \<^verbatim>\<open>stageIndex\<close> is a \<open>nat\<close>: it starts at 0, is only ever incremented, and the guard
    before the increment keeps it below the length of the list, so the Go \<^verbatim>\<open>int\<close> never
    wraps;
  \<^item> every call of a stage function and of \<^verbatim>\<open>os.Create\<close> is appended to \<open>trace\<close>, so
    that "the action was never invoked" and "the log was written once" are statements
    about the state;
  \<^item> what \<^verbatim>\<open>os.Create\<close> returns and what the clock reads are inputs from the
    environment (\<open>osCreateErr\<close>, \<open>clock\<close>); writes to a file that was created succeed;
  \<^item> the spinner and the colour rendering belong to external libraries: their functions
    are parameters of the functions that call them;
  \<^item> a call of \<open>runStage\<close> and a call of \<open>Update\<close> are steps that do not overlap;
  \<^item> the field \<^verbatim>\<open>Error\<close> of the model is \<open>model_Error\<close>, since \<open>Error\<close> names the field
    of a stage; the glyphs are the bytes of the string literals of the source file.
\<close>

subsection \<open>Data\<close>

type_synonym error = "string option"

datatype panic = NilFuncCall | IndexOutOfRange | NilErrorCall

datatype 'r func = NilFunc | Func 'r

record Stage =
  Name :: string
  Action :: "error func"
  Error :: error
  IsComplete :: bool
  IsCompleteFunc :: "bool func"
  Reset :: "error func"

datatype event =
  PredicateCalled nat bool
  | ActionCalled nat error
  | OsCreate error

record world =
  stages :: "Stage list"
  stageIndex :: nat
  commandLog :: "string list"
  logFile :: "string option"
  stdout :: string
  osCreateErr :: error
  clock :: string
  trace :: "event list"

record 'sp model =
  status :: int
  model_Error :: error
  spinner :: 'sp

datatype keyType = KeyCtrlC | KeyOther nat

datatype msg =
  StageCompleteMsg
  | ErrMsg string
  | KeyMsg keyType
  | StartDeployMsg
  | OtherMsg nat

datatype cmd =
  NilCmd
  | Quit
  | RunStage
  | StartDeployCmd
  | SpinnerCmd nat
  | Batch "cmd list"

definition nl :: string where
  "nl = [CHR 0x0A]"

subsection \<open>Commands and the update function\<close>

definition startDeployCmd :: msg where
  "startDeployCmd = StartDeployMsg"

definition runStage :: "world \<Rightarrow> panic + world \<times> msg" where
  "runStage w =
     (let i = stageIndex w in
      if i < length (stages w) then
        (case IsCompleteFunc (stages w ! i) of
           NilFunc \<Rightarrow> Inl NilFuncCall
         | Func b \<Rightarrow>
             (let w1 = w\<lparr>trace := trace w @ [PredicateCalled i b]\<rparr> in
              if \<not> b then
                (case Action (stages w1 ! i) of
                   NilFunc \<Rightarrow> Inl NilFuncCall
                 | Func r \<Rightarrow>
                     Inr (w1\<lparr>stages := (stages w1)[i := (stages w1 ! i)\<lparr>Error := r\<rparr>],
                              trace := trace w1 @ [ActionCalled i r]\<rparr>,
                          StageCompleteMsg))
              else Inr (w1, StageCompleteMsg)))
      else Inl IndexOutOfRange)"

definition initialModel :: "'sp \<Rightarrow> 'sp model" where
  "initialModel s = \<lparr>status = 0, model_Error = None, spinner = s\<rparr>"

definition Init :: "cmd \<Rightarrow> 'sp model \<Rightarrow> cmd" where
  "Init spinnerTick m = Batch [spinnerTick, StartDeployCmd]"

definition logCommand :: "string \<Rightarrow> world \<Rightarrow> world" where
  "logCommand s w = w\<lparr>commandLog := commandLog w @ [s]\<rparr>"

definition banner :: string where
  "banner = replicate 78 (CHR ''*'') @ nl"

definition writeCommandLogFile :: "world \<Rightarrow> panic + world" where
  "writeCommandLogFile w =
     (let w1 = w\<lparr>trace := trace w @ [OsCreate (osCreateErr w)]\<rparr> in
      case osCreateErr w of
        Some err \<Rightarrow> Inr (w1\<lparr>stdout := stdout w1 @ err @ nl\<rparr>)
      | None \<Rightarrow>
          (let f = ''Ran at: '' @ clock w @ nl;
               f = f @ banner;
               f = f @ ''Human legible log of steps taken and commands run up to the point of failure:'' @ nl;
               f = f @ banner;
               f = foldl (\<lambda>f c. f @ c @ nl) f (commandLog w);
               f = f @ ''^ The above command is likely the one that caused the error!'' @ nl;
               f = f @ nl @ nl;
               f = f @ banner;
               f = f @ ''Complete log of the error that halted the deployment:'' @ nl;
               f = f @ banner;
               f = f @ nl @ nl
           in if stageIndex w < length (stages w) then
                (case Error (stages w ! stageIndex w) of
                   None \<Rightarrow> Inl NilErrorCall
                 | Some e \<Rightarrow> Inr (w1\<lparr>logFile := Some (f @ e @ nl)\<rparr>))
              else Inl IndexOutOfRange))"

definition Update ::
  "('sp \<Rightarrow> msg \<Rightarrow> 'sp \<times> cmd) \<Rightarrow> 'sp model \<Rightarrow> world \<Rightarrow> msg \<Rightarrow> panic + 'sp model \<times> world \<times> cmd" where
  "Update spinnerUpdate m w ms =
     (let spin = (let (s, spinnerCmd) = spinnerUpdate (spinner m) ms
                  in Inr (m\<lparr>spinner := s\<rparr>, w, spinnerCmd)) in
      case ms of
        StageCompleteMsg \<Rightarrow>
          (let i = stageIndex w in
           if i < length (stages w) then
             (case Error (stages w ! i) of
                Some e \<Rightarrow>
                  (case writeCommandLogFile w of
                     Inl p \<Rightarrow> Inl p
                   | Inr w' \<Rightarrow> Inr (m\<lparr>model_Error := Some e\<rparr>, w', Quit))
              | None \<Rightarrow>
                  (let w1 = w\<lparr>stages := (stages w)[i := (stages w ! i)\<lparr>IsComplete := True\<rparr>]\<rparr> in
                   if stageIndex w1 + 1 \<ge> length (stages w1) then Inr (m, w1, Quit)
                   else Inr (m, w1\<lparr>stageIndex := stageIndex w1 + 1\<rparr>, RunStage)))
           else Inl IndexOutOfRange)
      | ErrMsg e \<Rightarrow> Inr (m\<lparr>model_Error := Some e\<rparr>, w, Quit)
      | KeyMsg k \<Rightarrow> (if k = KeyCtrlC then Inr (m, w, Quit) else spin)
      | StartDeployMsg \<Rightarrow> Inr (m, w, RunStage)
      | OtherMsg x \<Rightarrow> spin)"

subsection \<open>The view\<close>

definition glyph_error :: string where
  "glyph_error = [CHR '' '', CHR 0xE2, CHR 0x80, CHR 0x9A, CHR 0xC3, CHR 0xB9, CHR 0xC3, CHR 0xA5, CHR '' '']"

definition glyph_complete :: string where
  "glyph_complete = [CHR '' '', CHR 0xE2, CHR 0x80, CHR 0x9A, CHR 0xC3, CHR 0xBA, CHR 0xC3, CHR 0x96, CHR '' '']"

definition glyph_pending :: string where
  "glyph_pending = [CHR '' '', CHR 0xEF, CHR 0xA3, CHR 0xBF, CHR 0xC3, CHR 0xBC, CHR 0xC3, CHR 0xAE,
                    CHR 0xE2, CHR 0x89, CHR 0xA4, CHR '' '']"

definition renderCheckbox :: "(string \<Rightarrow> string \<Rightarrow> string) \<Rightarrow> Stage \<Rightarrow> string" where
  "renderCheckbox fg s =
     (if Error s \<noteq> None then fg ''196'' glyph_error
      else if IsComplete s then fg ''170'' glyph_complete
      else glyph_pending)"

definition renderWorkingStatus :: "('sp \<Rightarrow> string) \<Rightarrow> 'sp model \<Rightarrow> Stage \<Rightarrow> string" where
  "renderWorkingStatus spinnerView m s =
     (if \<not> IsComplete s then spinnerView (spinner m) else '' '') @ '' '' @ Name s"

definition View ::
  "(string \<Rightarrow> string \<Rightarrow> string) \<Rightarrow> ('sp \<Rightarrow> string) \<Rightarrow> 'sp model \<Rightarrow> world \<Rightarrow> panic + string" where
  "View fg spinnerView m w =
     (if stageIndex w < length (stages w) then
        Inr (foldl (\<lambda>sb stage. sb @ renderCheckbox fg stage @ '' '' @ renderWorkingStatus spinnerView m stage @ nl)
               (''Current stage: '' @ Name (stages w ! stageIndex w) @ nl)
               (stages w))
      else Inl IndexOutOfRange)"

subsection \<open>The run\<close>

text \<open>
  The stage list of \<^verbatim>\<open>main.go\<close>, and the state at program start: the cursor at 0, an empty
  command log, nothing printed, no call made. \<open>lf\<close> is what the log file holds before the
  run (\<open>None\<close> when there is no such file).
\<close>

definition stages_main :: "Stage list" where
  "stages_main =
     [\<lparr>Name = ''One'', Action = Func None, Error = None, IsComplete = False,
       IsCompleteFunc = Func False, Reset = NilFunc\<rparr>,
      \<lparr>Name = ''Two'', Action = Func (Some ''This one errored''), Error = None, IsComplete = False,
       IsCompleteFunc = Func False, Reset = NilFunc\<rparr>,
      \<lparr>Name = ''Three'', Action = Func None, Error = None, IsComplete = False,
       IsCompleteFunc = Func False, Reset = NilFunc\<rparr>]"

definition initial_world :: "Stage list \<Rightarrow> string option \<Rightarrow> error \<Rightarrow> string \<Rightarrow> world" where
  "initial_world stgs lf createErr clk =
     \<lparr>stages = stgs, stageIndex = 0, commandLog = [], logFile = lf, stdout = [],
      osCreateErr = createErr, clock = clk, trace = []\<rparr>"

text \<open>
  The event loop is Bubble Tea's. \<open>pump\<close> follows the commands of the engine the way the
  loop does: it runs the pending command, hands the message the command returns to
  \<open>Update\<close>, and goes on with the command \<open>Update\<close> returns, until that command is
  \<^verbatim>\<open>tea.Quit\<close>. A panic ends the program. Any other command (the spinner's tick) leaves
  the engine waiting. Key presses and spinner ticks that arrive in between are not part of
  \<open>pump\<close>; \<open>Update\<close> leaves the stage state alone on them.
\<close>

datatype ('sp, 'w) outcome =
  Exited "'sp model" 'w
  | Panicked panic
  | Waiting "'sp model" 'w

definition pump_measure :: "world \<Rightarrow> cmd \<Rightarrow> nat" where
  "pump_measure w c =
     (case c of
        StartDeployCmd \<Rightarrow> length (stages w) - stageIndex w + 2
      | RunStage \<Rightarrow> length (stages w) - stageIndex w + 1
      | _ \<Rightarrow> 0)"

lemma runStage_shape:
  "runStage w = Inr (w1, ms) \<Longrightarrow>
     ms = StageCompleteMsg \<and> stageIndex w1 = stageIndex w \<and> length (stages w1) = length (stages w)"
  by (auto simp: runStage_def Let_def split: if_splits func.splits)

lemma Update_StageComplete_measure:
  "Update upd m w StageCompleteMsg = Inr (m', w', c') \<Longrightarrow>
     pump_measure w' c' < pump_measure w RunStage"
  by (auto simp: Update_def Let_def pump_measure_def split: if_splits option.splits sum.splits)

lemma Update_StartDeploy:
  "Update upd m w StartDeployMsg = Inr (m, w, RunStage)"
  by (simp add: Update_def)

function pump ::
  "('sp \<Rightarrow> msg \<Rightarrow> 'sp \<times> cmd) \<Rightarrow> 'sp model \<Rightarrow> world \<Rightarrow> cmd \<Rightarrow> ('sp, world) outcome" where
  "pump upd m w c =
     (case c of
        Quit \<Rightarrow> Exited m w
      | StartDeployCmd \<Rightarrow>
          (case Update upd m w startDeployCmd of
             Inl p \<Rightarrow> Panicked p
           | Inr (m', w', c') \<Rightarrow> pump upd m' w' c')
      | RunStage \<Rightarrow>
          (case runStage w of
             Inl p \<Rightarrow> Panicked p
           | Inr (w1, ms) \<Rightarrow>
               (case Update upd m w1 ms of
                  Inl p \<Rightarrow> Panicked p
                | Inr (m', w', c') \<Rightarrow> pump upd m' w' c'))
      | _ \<Rightarrow> Waiting m w)"
  by pat_completeness auto
termination
proof (relation "measure (\<lambda>(upd, m, w, c). pump_measure w c)")
  show "wf (measure (\<lambda>(upd, m, w, c). pump_measure w c))" by simp
next
  fix upd :: "'sp \<Rightarrow> msg \<Rightarrow> 'sp \<times> cmd" and m w c x2 x y m' w' c'
  assume "c = StartDeployCmd" and u: "Update upd m w startDeployCmd = Inr x2"
    and "(m', y) = x2" and "(w', c') = y"
  then have "Update upd m w StartDeployMsg = Inr (m', w', c')"
    by (simp add: startDeployCmd_def)
  then have "w' = w" "c' = RunStage"
    by (simp_all add: Update_StartDeploy)
  with \<open>c = StartDeployCmd\<close>
  show "((upd, m', w', c'), (upd, m, w, c)) \<in> measure (\<lambda>(upd, m, w, c). pump_measure w c)"
    by (simp add: pump_measure_def)
next
  fix upd :: "'sp \<Rightarrow> msg \<Rightarrow> 'sp \<times> cmd" and m w c x2 w1 ms x2a m' y w' c'
  assume c: "c = RunStage" and r: "runStage w = Inr x2" and x2: "(w1, ms) = x2"
    and u: "Update upd m w1 ms = Inr x2a" and "(m', y) = x2a" and "(w', c') = y"
  from r x2 have sh: "ms = StageCompleteMsg" "stageIndex w1 = stageIndex w"
      "length (stages w1) = length (stages w)"
    using runStage_shape [of w w1 ms] by simp_all
  from u \<open>(m', y) = x2a\<close> \<open>(w', c') = y\<close> sh
  have "Update upd m w1 StageCompleteMsg = Inr (m', w', c')" by simp
  from Update_StageComplete_measure [OF this]
  have "pump_measure w' c' < pump_measure w1 RunStage" .
  moreover from sh have "pump_measure w1 RunStage = pump_measure w RunStage"
    by (simp add: pump_measure_def)
  ultimately show "((upd, m', w', c'), (upd, m, w, c)) \<in> measure (\<lambda>(upd, m, w, c). pump_measure w c)"
    using c by simp
qed

text \<open>
  \<open>Init\<close> batches the spinner's tick with \<open>startDeployCmd\<close>; the run of the engine starts
  with the latter.
\<close>

definition run :: "('sp \<Rightarrow> msg \<Rightarrow> 'sp \<times> cmd) \<Rightarrow> 'sp \<Rightarrow> world \<Rightarrow> ('sp, world) outcome" where
  "run upd s w = pump upd (initialModel s) w StartDeployCmd"

text \<open>
  The states a run can pass through. \<open>reach upd c0 c\<close> holds when \<open>c\<close> is obtained from
  the start \<open>c0\<close> by steps of \<open>Update\<close>, on any message, and steps of \<open>runStage\<close>, in
  any order. The event loop produces only some of these sequences (messages come from key
  presses, from the spinner and from the commands \<open>Update\<close> returned), so a property of
  every reachable state holds at every moment of every run, whatever the interleaving of
  ticks and key presses.
\<close>

inductive reach ::
  "('sp \<Rightarrow> msg \<Rightarrow> 'sp \<times> cmd) \<Rightarrow> 'sp model \<times> world \<Rightarrow> 'sp model \<times> world \<Rightarrow> bool"
  for upd :: "'sp \<Rightarrow> msg \<Rightarrow> 'sp \<times> cmd" and c0 :: "'sp model \<times> world" where
  reach_start: "reach upd c0 c0"
| reach_Update:
    "reach upd c0 (m, w) \<Longrightarrow> Update upd m w ms = Inr (m', w', c) \<Longrightarrow> reach upd c0 (m', w')"
| reach_runStage:
    "reach upd c0 (m, w) \<Longrightarrow> runStage w = Inr (w', ms) \<Longrightarrow> reach upd c0 (m, w')"

code_pred reach .

subsection \<open>The program of \<^verbatim>\<open>part_000\<close>\<close>

text \<open>
  The repository holds a second program, \<^verbatim>\<open>src/unnamed/part_000\<close>, with the same event
  loop and an earlier form of the stage runner: a stage has no completion predicate, there
  is no command log and no log file, and \<open>runStage\<close> works on a copy of the current stage.
  Its definitions carry the suffix \<open>_p0\<close>. The model record, the messages and the commands
  are those of \<^verbatim>\<open>main.go\<close> (the field \<^verbatim>\<open>err\<close> of its model is \<open>model_Error\<close>).
\<close>

record Stage_p0 =
  Name_p0 :: string
  Action_p0 :: "error func"
  Error_p0 :: error
  IsComplete_p0 :: bool
  Reset_p0 :: "error func"

record world_p0 =
  stages_p0 :: "Stage_p0 list"
  stageIndex_p0 :: nat
  trace_p0 :: "event list"

definition stages_part000 :: "Stage_p0 list" where
  "stages_part000 =
     [\<lparr>Name_p0 = ''One'', Action_p0 = Func (Some ''This one errored''), Error_p0 = None,
       IsComplete_p0 = False, Reset_p0 = NilFunc\<rparr>,
      \<lparr>Name_p0 = ''Two'', Action_p0 = Func None, Error_p0 = None,
       IsComplete_p0 = False, Reset_p0 = NilFunc\<rparr>]"

definition initial_world_p0 :: "Stage_p0 list \<Rightarrow> world_p0" where
  "initial_world_p0 stgs = \<lparr>stages_p0 = stgs, stageIndex_p0 = 0, trace_p0 = []\<rparr>"

text \<open>
  \<^verbatim>\<open>currentStage := stages[stageIndex]\<close> copies the struct; the assignment to
  \<^verbatim>\<open>currentStage.Error\<close> changes the copy, which is dropped when the function returns.
\<close>

definition runStage_p0 :: "world_p0 \<Rightarrow> panic + world_p0 \<times> msg" where
  "runStage_p0 w =
     (let i = stageIndex_p0 w in
      if i < length (stages_p0 w) then
        (let currentStage = stages_p0 w ! i in
         case Action_p0 currentStage of
           NilFunc \<Rightarrow> Inl NilFuncCall
         | Func r \<Rightarrow>
             (let currentStage = currentStage\<lparr>Error_p0 := r\<rparr> in
              Inr (w\<lparr>trace_p0 := trace_p0 w @ [ActionCalled i r]\<rparr>, StageCompleteMsg)))
      else Inl IndexOutOfRange)"

definition Update_p0 ::
  "('sp \<Rightarrow> msg \<Rightarrow> 'sp \<times> cmd) \<Rightarrow> 'sp model \<Rightarrow> world_p0 \<Rightarrow> msg \<Rightarrow> panic + 'sp model \<times> world_p0 \<times> cmd" where
  "Update_p0 spinnerUpdate m w ms =
     (let spin = (let (s, spinnerCmd) = spinnerUpdate (spinner m) ms
                  in Inr (m\<lparr>spinner := s\<rparr>, w, spinnerCmd)) in
      case ms of
        StageCompleteMsg \<Rightarrow>
          (let i = stageIndex_p0 w in
           if i < length (stages_p0 w) then
             (let w1 = w\<lparr>stages_p0 := (stages_p0 w)[i := (stages_p0 w ! i)\<lparr>IsComplete_p0 := True\<rparr>]\<rparr> in
              if stageIndex_p0 w1 + 1 \<ge> length (stages_p0 w1) then Inr (m, w1, Quit)
              else Inr (m, w1\<lparr>stageIndex_p0 := stageIndex_p0 w1 + 1\<rparr>, RunStage))
           else Inl IndexOutOfRange)
      | ErrMsg e \<Rightarrow> Inr (m\<lparr>model_Error := Some e\<rparr>, w, Quit)
      | KeyMsg k \<Rightarrow> (if k = KeyCtrlC then Inr (m, w, Quit) else spin)
      | StartDeployMsg \<Rightarrow> Inr (m, w, RunStage)
      | OtherMsg x \<Rightarrow> spin)"

definition glyph_error_p0 :: string where
  "glyph_error_p0 = [CHR '' '', CHR 0xE2, CHR 0x9D, CHR 0x8C, CHR '' '']"

definition glyph_complete_p0 :: string where
  "glyph_complete_p0 = [CHR '' '', CHR 0xE2, CHR 0x9C, CHR 0x85, CHR '' '']"

definition glyph_pending_p0 :: string where
  "glyph_pending_p0 = [CHR '' '', CHR 0xF0, CHR 0x9F, CHR 0x94, CHR 0xB2, CHR '' '']"

definition renderCheckbox_p0 :: "(string \<Rightarrow> string \<Rightarrow> string) \<Rightarrow> Stage_p0 \<Rightarrow> string" where
  "renderCheckbox_p0 fg s =
     (if Error_p0 s \<noteq> None then fg ''196'' glyph_error_p0
      else if IsComplete_p0 s then fg ''170'' glyph_complete_p0
      else glyph_pending_p0)"

definition pump_measure_p0 :: "world_p0 \<Rightarrow> cmd \<Rightarrow> nat" where
  "pump_measure_p0 w c =
     (case c of
        StartDeployCmd \<Rightarrow> length (stages_p0 w) - stageIndex_p0 w + 2
      | RunStage \<Rightarrow> length (stages_p0 w) - stageIndex_p0 w + 1
      | _ \<Rightarrow> 0)"

lemma runStage_p0_shape:
  "runStage_p0 w = Inr (w1, ms) \<Longrightarrow>
     ms = StageCompleteMsg \<and> stageIndex_p0 w1 = stageIndex_p0 w \<and> stages_p0 w1 = stages_p0 w"
  by (auto simp: runStage_p0_def Let_def split: if_splits func.splits)

lemma Update_p0_StageComplete_measure:
  "Update_p0 upd m w StageCompleteMsg = Inr (m', w', c') \<Longrightarrow>
     pump_measure_p0 w' c' < pump_measure_p0 w RunStage"
  by (auto simp: Update_p0_def Let_def pump_measure_p0_def split: if_splits)

lemma Update_p0_StartDeploy:
  "Update_p0 upd m w StartDeployMsg = Inr (m, w, RunStage)"
  by (simp add: Update_p0_def)

function pump_p0 ::
  "('sp \<Rightarrow> msg \<Rightarrow> 'sp \<times> cmd) \<Rightarrow> 'sp model \<Rightarrow> world_p0 \<Rightarrow> cmd \<Rightarrow> ('sp, world_p0) outcome" where
  "pump_p0 upd m w c =
     (case c of
        Quit \<Rightarrow> Exited m w
      | StartDeployCmd \<Rightarrow>
          (case Update_p0 upd m w startDeployCmd of
             Inl p \<Rightarrow> Panicked p
           | Inr (m', w', c') \<Rightarrow> pump_p0 upd m' w' c')
      | RunStage \<Rightarrow>
          (case runStage_p0 w of
             Inl p \<Rightarrow> Panicked p
           | Inr (w1, ms) \<Rightarrow>
               (case Update_p0 upd m w1 ms of
                  Inl p \<Rightarrow> Panicked p
                | Inr (m', w', c') \<Rightarrow> pump_p0 upd m' w' c'))
      | _ \<Rightarrow> Waiting m w)"
  by pat_completeness auto
termination
proof (relation "measure (\<lambda>(upd, m, w, c). pump_measure_p0 w c)")
  show "wf (measure (\<lambda>(upd, m, w, c). pump_measure_p0 w c))" by simp
next
  fix upd :: "'sp \<Rightarrow> msg \<Rightarrow> 'sp \<times> cmd" and m w c x2 x y m' w' c'
  assume "c = StartDeployCmd" and u: "Update_p0 upd m w startDeployCmd = Inr x2"
    and "(m', y) = x2" and "(w', c') = y"
  then have "Update_p0 upd m w StartDeployMsg = Inr (m', w', c')"
    by (simp add: startDeployCmd_def)
  then have "w' = w" "c' = RunStage"
    by (simp_all add: Update_p0_StartDeploy)
  with \<open>c = StartDeployCmd\<close>
  show "((upd, m', w', c'), (upd, m, w, c)) \<in> measure (\<lambda>(upd, m, w, c). pump_measure_p0 w c)"
    by (simp add: pump_measure_p0_def)
next
  fix upd :: "'sp \<Rightarrow> msg \<Rightarrow> 'sp \<times> cmd" and m w c x2 w1 ms x2a m' y w' c'
  assume c: "c = RunStage" and r: "runStage_p0 w = Inr x2" and x2: "(w1, ms) = x2"
    and u: "Update_p0 upd m w1 ms = Inr x2a" and "(m', y) = x2a" and "(w', c') = y"
  from r x2 have sh: "ms = StageCompleteMsg" "stageIndex_p0 w1 = stageIndex_p0 w"
      "stages_p0 w1 = stages_p0 w"
    using runStage_p0_shape [of w w1 ms] by simp_all
  from u \<open>(m', y) = x2a\<close> \<open>(w', c') = y\<close> sh
  have "Update_p0 upd m w1 StageCompleteMsg = Inr (m', w', c')" by simp
  from Update_p0_StageComplete_measure [OF this]
  have "pump_measure_p0 w' c' < pump_measure_p0 w1 RunStage" .
  moreover from sh have "pump_measure_p0 w1 RunStage = pump_measure_p0 w RunStage"
    by (simp add: pump_measure_p0_def)
  ultimately show "((upd, m', w', c'), (upd, m, w, c)) \<in> measure (\<lambda>(upd, m, w, c). pump_measure_p0 w c)"
    using c by simp
qed

definition run_p0 ::
  "('sp \<Rightarrow> msg \<Rightarrow> 'sp \<times> cmd) \<Rightarrow> 'sp \<Rightarrow> world_p0 \<Rightarrow> ('sp, world_p0) outcome" where
  "run_p0 upd s w = pump_p0 upd (initialModel s) w StartDeployCmd"

subsection \<open>Notions used to state the properties\<close>

text \<open>
  A stage completes when its predicate reports true (it is skipped, and carries no error
  from before), or when its predicate reports false and its action returns \<^verbatim>\<open>nil\<close>. It
  fails with \<open>e\<close> when its predicate reports false and its action returns the error \<open>e\<close>.
  \<open>finished s\<close> is the record of a stage that completed. \<open>calls_from i ss\<close> lists the calls
  that executing the stages \<open>ss\<close>, which sit at the indices \<open>i\<close>, \<open>i + 1\<close>, ..., makes.
\<close>

definition completes :: "Stage \<Rightarrow> bool" where
  "completes s \<longleftrightarrow>
     (IsCompleteFunc s = Func True \<and> Error s = None) \<or>
     (IsCompleteFunc s = Func False \<and> Action s = Func None)"

definition fails :: "Stage \<Rightarrow> string \<Rightarrow> bool" where
  "fails s e \<longleftrightarrow> IsCompleteFunc s = Func False \<and> Action s = Func (Some e)"

definition fresh :: "Stage \<Rightarrow> bool" where
  "fresh s \<longleftrightarrow> Error s = None \<and> \<not> IsComplete s"

definition finished :: "Stage \<Rightarrow> Stage" where
  "finished s = s\<lparr>Error := None, IsComplete := True\<rparr>"

fun calls_from :: "nat \<Rightarrow> Stage list \<Rightarrow> event list" where
  "calls_from i [] = []"
| "calls_from i (s # ss) =
     (case IsCompleteFunc s of
        NilFunc \<Rightarrow> []
      | Func b \<Rightarrow>
          PredicateCalled i b #
          (if b then [] else (case Action s of NilFunc \<Rightarrow> [] | Func r \<Rightarrow> [ActionCalled i r])))
     @ calls_from (Suc i) ss"

fun is_OsCreate :: "event \<Rightarrow> bool" where
  "is_OsCreate (OsCreate r) = True"
| "is_OsCreate _ = False"

text \<open>
  The text of the failure log, section by section: the line with the time, the section of
  the steps taken (one line for each entry of the command log, in the order of the log),
  and the section of the error.
\<close>

definition timestamp_line :: "string \<Rightarrow> string" where
  "timestamp_line clk = ''Ran at: '' @ clk @ nl"

definition steps_section :: "string list \<Rightarrow> string" where
  "steps_section cl =
     banner @ ''Human legible log of steps taken and commands run up to the point of failure:'' @ nl @
     banner @ concat (map (\<lambda>c. c @ nl) cl) @
     ''^ The above command is likely the one that caused the error!'' @ nl"

definition error_section :: "string \<Rightarrow> string" where
  "error_section e =
     banner @ ''Complete log of the error that halted the deployment:'' @ nl @ banner @
     nl @ nl @ e @ nl"

definition log_text :: "string \<Rightarrow> string list \<Rightarrow> string \<Rightarrow> string" where
  "log_text clk cl e = timestamp_line clk @ steps_section cl @ nl @ nl @ error_section e"

text \<open>What \<open>writeCommandLogFile\<close> does to the state when the current stage holds the error \<open>e\<close>.\<close>

definition log_effect :: "string \<Rightarrow> world \<Rightarrow> world" where
  "log_effect e w =
     (case osCreateErr w of
        None \<Rightarrow> w\<lparr>trace := trace w @ [OsCreate None],
                  logFile := Some (log_text (clock w) (commandLog w) e)\<rparr>
      | Some x \<Rightarrow> w\<lparr>trace := trace w @ [OsCreate (Some x)], stdout := stdout w @ x @ nl\<rparr>)"

text \<open>
  Invariants of a run. \<open>cursor_inv\<close>: the cursor is an index of the stage list.
  \<open>log_inv lf clk\<close>: the command log is empty, and the log file is as it was before the
  run (\<open>lf\<close>) or holds a failure log with no command lines. \<open>skip_inv i\<close>: stage \<open>i\<close> has a
  predicate that reports true, holds no error, and its action has not been called.
\<close>

definition cursor_inv :: "world \<Rightarrow> bool" where
  "cursor_inv w \<longleftrightarrow> stageIndex w < length (stages w)"

definition log_inv :: "string option \<Rightarrow> string \<Rightarrow> world \<Rightarrow> bool" where
  "log_inv lf clk w \<longleftrightarrow>
     commandLog w = [] \<and> clock w = clk \<and>
     (logFile w = lf \<or> (\<exists>e. logFile w = Some (log_text clk [] e)))"

definition skip_inv :: "nat \<Rightarrow> world \<Rightarrow> bool" where
  "skip_inv i w \<longleftrightarrow>
     i < length (stages w) \<and> IsCompleteFunc (stages w ! i) = Func True \<and>
     Error (stages w ! i) = None \<and> (\<forall>r. ActionCalled i r \<notin> set (trace w))"

text \<open>The state in which the run of \<open>stages_main\<close> ends, the log file created at clock \<open>''t''\<close>.\<close>

definition world_main_failed :: world where
  "world_main_failed =
     \<lparr>stages =
        [(stages_main ! 0)\<lparr>IsComplete := True\<rparr>,
         (stages_main ! 1)\<lparr>Error := Some ''This one errored''\<rparr>,
         stages_main ! 2],
      stageIndex = 1, commandLog = [],
      logFile = Some (log_text ''t'' [] ''This one errored''), stdout = [],
      osCreateErr = None, clock = ''t'',
      trace = [PredicateCalled 0 False, ActionCalled 0 None,
               PredicateCalled 1 False, ActionCalled 1 (Some ''This one errored''),
               OsCreate None]\<rparr>"

subsection \<open>Inputs for the examples\<close>

text \<open>
  An instance of the library parameters: a spinner that is a frame counter, advanced by the
  tick message \<open>OtherMsg 0\<close>, and a terminal without colours, on which a style renders
  the text as it is.
\<close>

definition example_spinner_Update :: "nat \<Rightarrow> msg \<Rightarrow> nat \<times> cmd" where
  "example_spinner_Update f ms =
     (case ms of
        OtherMsg t \<Rightarrow> (if t = 0 then (if f + 1 \<ge> 3 then 0 else f + 1, SpinnerCmd 0) else (f, NilCmd))
      | _ \<Rightarrow> (f, NilCmd))"

definition example_spinner_View :: "nat \<Rightarrow> string" where
  "example_spinner_View f = (if f \<ge> 3 then ''(error)'' else [''.'', ''o'', ''O''] ! f)"

definition example_fg :: "string \<Rightarrow> string \<Rightarrow> string" where
  "example_fg colour text = text"

definition stage_skipped :: Stage where
  "stage_skipped =
     \<lparr>Name = ''Zero'', Action = Func (Some ''not run''), Error = None, IsComplete = False,
      IsCompleteFunc = Func True, Reset = NilFunc\<rparr>"

definition stage_without_predicate :: Stage where
  "stage_without_predicate =
     \<lparr>Name = ''One'', Action = Func None, Error = None, IsComplete = False,
      IsCompleteFunc = NilFunc, Reset = NilFunc\<rparr>"

text \<open>
  The state of the run of \<open>stages_main\<close> after the action of stage Two has returned its
  error, before the stage-complete message is processed; \<open>ce\<close> is what \<^verbatim>\<open>os.Create\<close> will
  return. And a start state whose command log holds two entries.
\<close>

definition world_two_failed :: "error \<Rightarrow> world" where
  "world_two_failed ce =
     \<lparr>stages =
        [(stages_main ! 0)\<lparr>IsComplete := True\<rparr>,
         (stages_main ! 1)\<lparr>Error := Some ''This one errored''\<rparr>,
         stages_main ! 2],
      stageIndex = 1, commandLog = [], logFile = None, stdout = [],
      osCreateErr = ce, clock = ''t'',
      trace = [PredicateCalled 0 False, ActionCalled 0 None,
               PredicateCalled 1 False, ActionCalled 1 (Some ''This one errored'')]\<rparr>"

definition world_logged :: world where
  "world_logged =
     \<lparr>stages = stages_main, stageIndex = 0, commandLog = [''step one'', ''step two''],
      logFile = Some ''old'', stdout = [], osCreateErr = None, clock = ''t'', trace = []\<rparr>"

text \<open>
  The working status as the specification words it: the spinner beside a pending stage (no
  error, not complete), a blank beside a completed or an errored stage.
\<close>

definition spec_working_status :: "('sp \<Rightarrow> string) \<Rightarrow> 'sp model \<Rightarrow> Stage \<Rightarrow> string" where
  "spec_working_status spinnerView m s =
     (if Error s = None \<and> \<not> IsComplete s then spinnerView (spinner m) else '' '') @ '' '' @ Name s"

section \<open>Lemmas\<close>

declare pump.simps [simp del]

declare pump_p0.simps [simp del]

lemma pump_Quit: "pump upd m w Quit = Exited m w"
  by (subst pump.simps) simp

lemma pump_RunStage:
  "pump upd m w RunStage =
     (case runStage w of
        Inl p \<Rightarrow> Panicked p
      | Inr (w1, ms) \<Rightarrow>
          (case Update upd m w1 ms of
             Inl p \<Rightarrow> Panicked p
           | Inr (m', w', c') \<Rightarrow> pump upd m' w' c'))"
  by (subst pump.simps) simp

lemma pump_StartDeployCmd: "pump upd m w StartDeployCmd = pump upd m w RunStage"
  by (subst pump.simps) (simp add: startDeployCmd_def Update_StartDeploy)

lemma step_completes:
  assumes "stages w = pre @ s # rest" and "stageIndex w = length pre" and "completes s"
  shows "\<exists>w1. runStage w = Inr (w1, StageCompleteMsg) \<and>
     Update upd m w1 StageCompleteMsg =
       Inr (m, w\<lparr>stages := pre @ finished s # rest,
                  stageIndex := (if rest = [] then length pre else Suc (length pre)),
                  trace := trace w @ calls_from (length pre) [s]\<rparr>,
            if rest = [] then Quit else RunStage)"
  using assms
  by (auto simp: runStage_def Update_def completes_def finished_def Let_def)

lemma pump_completes_prefix:
  assumes "stages w = pre @ good @ rest" and "stageIndex w = length pre"
    and "\<forall>s\<in>set good. completes s" and "rest \<noteq> []"
  shows "pump upd m w RunStage =
     pump upd m (w\<lparr>stages := pre @ map finished good @ rest,
                     stageIndex := length pre + length good,
                     trace := trace w @ calls_from (length pre) good\<rparr>) RunStage"
  using assms
proof (induction good arbitrary: w pre)
  case Nil
  from Nil.prems(1,2) have "w\<lparr>stages := pre @ rest, stageIndex := length pre\<rparr> = w"
    by (cases w) simp
  then show ?case by simp
next
  case (Cons s good)
  from Cons.prems have st: "stages w = pre @ s # (good @ rest)" and c: "completes s" by simp_all
  from step_completes [OF st Cons.prems(2) c, of upd m] Cons.prems(4)
  obtain w1 where r: "runStage w = Inr (w1, StageCompleteMsg)"
    and u: "Update upd m w1 StageCompleteMsg =
       Inr (m, w\<lparr>stages := pre @ finished s # (good @ rest), stageIndex := Suc (length pre),
                  trace := trace w @ calls_from (length pre) [s]\<rparr>, RunStage)"
    by auto
  let ?w' = "w\<lparr>stages := pre @ finished s # (good @ rest), stageIndex := Suc (length pre),
                  trace := trace w @ calls_from (length pre) [s]\<rparr>"
  have "pump upd m w RunStage = pump upd m ?w' RunStage"
    by (simp add: pump_RunStage r u)
  also have "\<dots> = pump upd m (?w'\<lparr>stages := (pre @ [finished s]) @ map finished good @ rest,
                     stageIndex := length (pre @ [finished s]) + length good,
                     trace := trace ?w' @ calls_from (length (pre @ [finished s])) good\<rparr>) RunStage"
    using Cons.prems by (intro Cons.IH) simp_all
  finally show ?case by simp
qed

lemma calls_from_append:
  "calls_from i (xs @ ys) = calls_from i xs @ calls_from (i + length xs) ys"
  by (induction xs arbitrary: i) simp_all

lemma pump_all_complete:
  assumes "stages w = pre @ good" and "stageIndex w = length pre"
    and "\<forall>s\<in>set good. completes s" and "good \<noteq> []"
  shows "pump upd m w RunStage =
     Exited m (w\<lparr>stages := pre @ map finished good,
                  stageIndex := length pre + length good - 1,
                  trace := trace w @ calls_from (length pre) good\<rparr>)"
proof -
  define front where "front = butlast good"
  define s where "s = last good"
  from assms(4) have good: "good = front @ [s]" by (simp add: front_def s_def)
  let ?w' = "w\<lparr>stages := pre @ map finished front @ [s],
                stageIndex := length pre + length front,
                trace := trace w @ calls_from (length pre) front\<rparr>"
  have "pump upd m w RunStage = pump upd m ?w' RunStage"
    using assms(1-3) good by (intro pump_completes_prefix) simp_all
  moreover
  have "stages ?w' = (pre @ map finished front) @ s # []" by simp
  moreover have "stageIndex ?w' = length (pre @ map finished front)" by simp
  moreover have "completes s" using assms(3) good by simp
  ultimately obtain w1 where "runStage ?w' = Inr (w1, StageCompleteMsg)"
    and "Update upd m w1 StageCompleteMsg =
       Inr (m, ?w'\<lparr>stages := (pre @ map finished front) @ finished s # [],
                  stageIndex := length (pre @ map finished front),
                  trace := trace ?w' @ calls_from (length (pre @ map finished front)) [s]\<rparr>, Quit)"
    using step_completes [of ?w' "pre @ map finished front" s "[]" upd m] by auto
  then have "pump upd m ?w' RunStage =
      Exited m (?w'\<lparr>stages := (pre @ map finished front) @ finished s # [],
                  stageIndex := length (pre @ map finished front),
                  trace := trace ?w' @ calls_from (length (pre @ map finished front)) [s]\<rparr>)"
    by (simp add: pump_RunStage pump_Quit)
  also have "\<dots> = Exited m (w\<lparr>stages := pre @ map finished good,
                  stageIndex := length pre + length good - 1,
                  trace := trace w @ calls_from (length pre) good\<rparr>)"
    by (simp add: good calls_from_append)
  finally show ?thesis using \<open>pump upd m w RunStage = pump upd m ?w' RunStage\<close> by simp
qed

lemma foldl_lines: "foldl (\<lambda>f c. f @ c @ nl) f cs = f @ concat (map (\<lambda>c. c @ nl) cs)"
  by (induction cs arbitrary: f) simp_all

lemma writeCommandLogFile_created:
  assumes "osCreateErr w = None" and "stageIndex w < length (stages w)"
    and "Error (stages w ! stageIndex w) = Some e"
  shows "writeCommandLogFile w =
     Inr (w\<lparr>trace := trace w @ [OsCreate None],
             logFile := Some (log_text (clock w) (commandLog w) e)\<rparr>)"
  using assms
  by (simp add: writeCommandLogFile_def Let_def foldl_lines log_text_def timestamp_line_def
      steps_section_def error_section_def)

lemma writeCommandLogFile_refused:
  assumes "osCreateErr w = Some x"
  shows "writeCommandLogFile w =
     Inr (w\<lparr>trace := trace w @ [OsCreate (Some x)], stdout := stdout w @ x @ nl\<rparr>)"
  using assms by (simp add: writeCommandLogFile_def Let_def)

lemma step_fails:
  assumes "stages w = pre @ s # rest" and "stageIndex w = length pre" and "fails s e"
  shows "\<exists>w1. runStage w = Inr (w1, StageCompleteMsg) \<and>
     Update upd m w1 StageCompleteMsg =
       Inr (m\<lparr>model_Error := Some e\<rparr>,
            log_effect e (w\<lparr>stages := pre @ s\<lparr>Error := Some e\<rparr> # rest,
                  trace := trace w @ [PredicateCalled (length pre) False,
                                      ActionCalled (length pre) (Some e)]\<rparr>),
            Quit)"
proof -
  let ?w1 = "w\<lparr>stages := pre @ s\<lparr>Error := Some e\<rparr> # rest,
                  trace := trace w @ [PredicateCalled (length pre) False,
                                      ActionCalled (length pre) (Some e)]\<rparr>"
  from assms have r: "runStage w = Inr (?w1, StageCompleteMsg)"
    by (simp add: runStage_def fails_def Let_def)
  have i: "stageIndex ?w1 < length (stages ?w1)" 
    and e: "Error (stages ?w1 ! stageIndex ?w1) = Some e"
    using assms(2) by simp_all
  have "writeCommandLogFile ?w1 = Inr (log_effect e ?w1)"
  proof (cases "osCreateErr w")
    case None
    then have "osCreateErr ?w1 = None" by simp
    from writeCommandLogFile_created [OF this i e] None show ?thesis
      by (simp add: log_effect_def)
  next
    case (Some x)
    then have "osCreateErr ?w1 = Some x" by simp
    from writeCommandLogFile_refused [OF this] Some show ?thesis
      by (simp add: log_effect_def)
  qed
  with i e have "Update upd m ?w1 StageCompleteMsg =
      Inr (m\<lparr>model_Error := Some e\<rparr>, log_effect e ?w1, Quit)"
    by (simp add: Update_def Let_def)
  with r show ?thesis by blast
qed

lemma pump_fails:
  assumes "stages w = pre @ good @ bad # post" and "stageIndex w = length pre"
    and "\<forall>s\<in>set good. completes s" and "fails bad e"
  shows "pump upd m w RunStage =
     Exited (m\<lparr>model_Error := Some e\<rparr>)
       (log_effect e
          (w\<lparr>stages := pre @ map finished good @ bad\<lparr>Error := Some e\<rparr> # post,
             stageIndex := length pre + length good,
             trace := trace w @ calls_from (length pre) good @
                [PredicateCalled (length pre + length good) False,
                 ActionCalled (length pre + length good) (Some e)]\<rparr>))"
proof -
  let ?w' = "w\<lparr>stages := pre @ map finished good @ bad # post,
                stageIndex := length pre + length good,
                trace := trace w @ calls_from (length pre) good\<rparr>"
  have p: "pump upd m w RunStage = pump upd m ?w' RunStage"
    using assms(1-3) by (intro pump_completes_prefix) simp_all
  have "stages ?w' = (pre @ map finished good) @ bad # post" by simp
  moreover have "stageIndex ?w' = length (pre @ map finished good)" by simp
  ultimately obtain w1 where "runStage ?w' = Inr (w1, StageCompleteMsg)"
    and "Update upd m w1 StageCompleteMsg =
       Inr (m\<lparr>model_Error := Some e\<rparr>,
            log_effect e (?w'\<lparr>stages := (pre @ map finished good) @ bad\<lparr>Error := Some e\<rparr> # post,
                  trace := trace ?w' @ [PredicateCalled (length (pre @ map finished good)) False,
                                      ActionCalled (length (pre @ map finished good)) (Some e)]\<rparr>),
            Quit)"
    using step_fails [of ?w' "pre @ map finished good" bad post e upd m] assms(4) by blast
  then have "pump upd m ?w' RunStage =
      Exited (m\<lparr>model_Error := Some e\<rparr>)
        (log_effect e (?w'\<lparr>stages := (pre @ map finished good) @ bad\<lparr>Error := Some e\<rparr> # post,
                  trace := trace ?w' @ [PredicateCalled (length (pre @ map finished good)) False,
                                      ActionCalled (length (pre @ map finished good)) (Some e)]\<rparr>))"
    by (simp add: pump_RunStage pump_Quit)
  with p show ?thesis by (cases w) simp
qed

lemma finished_props: "IsComplete (finished s)" "Error (finished s) = None"
  by (simp_all add: finished_def)

lemma calls_from_index:
  "ActionCalled j r \<in> set (calls_from i ss) \<Longrightarrow> i \<le> j \<and> j < i + length ss"
proof (induction ss arbitrary: i)
  case Nil
  then show ?case by simp
next
  case (Cons s ss)
  then have "j = i \<or> ActionCalled j r \<in> set (calls_from (Suc i) ss)"
    by (auto split: func.splits if_splits)
  then show ?case using Cons.IH [of "Suc i"] by auto
qed

lemma calls_from_no_create: "filter is_OsCreate (calls_from i ss) = []"
  by (induction ss arbitrary: i) (auto split: func.splits)

lemma writeCommandLogFile_effect:
  assumes "stageIndex w < length (stages w)" and "Error (stages w ! stageIndex w) = Some e"
  shows "writeCommandLogFile w = Inr (log_effect e w)"
proof (cases "osCreateErr w")
  case None
  from writeCommandLogFile_created [OF None assms] None show ?thesis
    by (simp add: log_effect_def)
next
  case (Some x)
  from writeCommandLogFile_refused [OF Some] Some show ?thesis
    by (simp add: log_effect_def)
qed

lemma runStage_cases:
  assumes "runStage w = Inr (w', ms)"
  shows "ms = StageCompleteMsg \<and> stageIndex w < length (stages w) \<and>
     (IsCompleteFunc (stages w ! stageIndex w) = Func True \<and>
        w' = w\<lparr>trace := trace w @ [PredicateCalled (stageIndex w) True]\<rparr>
      \<or> (\<exists>r. IsCompleteFunc (stages w ! stageIndex w) = Func False \<and>
            Action (stages w ! stageIndex w) = Func r \<and>
            w' = w\<lparr>stages := (stages w)[stageIndex w := (stages w ! stageIndex w)\<lparr>Error := r\<rparr>],
                   trace := trace w @ [PredicateCalled (stageIndex w) False,
                                       ActionCalled (stageIndex w) r]\<rparr>))"
  using assms
  by (auto simp: runStage_def Let_def split: if_splits func.splits)

lemma Update_cases:
  assumes "Update upd m w ms = Inr (m', w', c)"
  shows "w' = w \<and> ms \<noteq> StageCompleteMsg
     \<or> (ms = StageCompleteMsg \<and> stageIndex w < length (stages w) \<and>
         (\<exists>e. Error (stages w ! stageIndex w) = Some e \<and> w' = log_effect e w \<and>
              m' = m\<lparr>model_Error := Some e\<rparr> \<and> c = Quit))
     \<or> (ms = StageCompleteMsg \<and> stageIndex w < length (stages w) \<and>
         Error (stages w ! stageIndex w) = None \<and> m' = m \<and>
         (if stageIndex w + 1 \<ge> length (stages w)
          then w' = w\<lparr>stages := (stages w)[stageIndex w := (stages w ! stageIndex w)\<lparr>IsComplete := True\<rparr>]\<rparr>
               \<and> c = Quit
          else w' = w\<lparr>stages := (stages w)[stageIndex w := (stages w ! stageIndex w)\<lparr>IsComplete := True\<rparr>],
                      stageIndex := stageIndex w + 1\<rparr>
               \<and> c = RunStage))"
proof (cases ms)
  case StageCompleteMsg
  show ?thesis
  proof (cases "stageIndex w < length (stages w)")
    case False
    with assms StageCompleteMsg show ?thesis by (simp add: Update_def Let_def)
  next
    case True
    show ?thesis
    proof (cases "Error (stages w ! stageIndex w)")
      case None
      with assms StageCompleteMsg True show ?thesis
        by (auto simp: Update_def Let_def split: if_splits)
    next
      case (Some e)
      from writeCommandLogFile_effect [OF True Some] assms StageCompleteMsg True Some
      show ?thesis by (auto simp: Update_def Let_def)
    qed
  qed
qed (use assms in \<open>auto simp: Update_def Let_def split: if_splits prod.splits\<close>)

lemma Update_other_message:
  assumes "ms \<noteq> StageCompleteMsg" and "Update upd m w ms = Inr (m', w', c)"
  shows "w' = w"
  using Update_cases [OF assms(2)] assms(1) by auto

lemma reach_invariant:
  assumes "reach upd c0 c" and "P c0"
    and "\<And>m w ms m' w' c. P (m, w) \<Longrightarrow> Update upd m w ms = Inr (m', w', c) \<Longrightarrow> P (m', w')"
    and "\<And>m w w' ms. P (m, w) \<Longrightarrow> runStage w = Inr (w', ms) \<Longrightarrow> P (m, w')"
  shows "P c"
  using assms(1)
proof (induction rule: reach.induct)
  case reach_start
  show ?case by (rule assms(2))
next
  case (reach_Update m w ms m' w' c)
  then show ?case using assms(3) by blast
next
  case (reach_runStage m w w' ms)
  then show ?case using assms(4) by blast
qed

lemma log_effect_fields:
  "stages (log_effect e w) = stages w" "stageIndex (log_effect e w) = stageIndex w"
  "commandLog (log_effect e w) = commandLog w" "clock (log_effect e w) = clock w"
  "osCreateErr (log_effect e w) = osCreateErr w"
  "trace (log_effect e w) = trace w @ [OsCreate (osCreateErr w)]"
  by (simp_all add: log_effect_def split: option.splits)

lemma log_effect_logFile:
  "logFile (log_effect e w) =
     (if osCreateErr w = None then Some (log_text (clock w) (commandLog w) e) else logFile w)"
  by (simp add: log_effect_def split: option.splits)

lemma cursor_inv_Update:
  "cursor_inv w \<Longrightarrow> Update upd m w ms = Inr (m', w', c) \<Longrightarrow> cursor_inv w'"
  by (drule Update_cases) (auto simp: cursor_inv_def log_effect_fields split: if_splits)

lemma cursor_inv_runStage:
  "cursor_inv w \<Longrightarrow> runStage w = Inr (w', ms) \<Longrightarrow> cursor_inv w'"
  by (drule runStage_cases) (auto simp: cursor_inv_def)

lemma reach_cursor_inv:
  assumes "reach upd (m0, w0) (m, w)" and "cursor_inv w0"
  shows "cursor_inv w"
proof -
  have "cursor_inv (snd (m, w))"
    using assms(1)
  proof (rule reach_invariant)
    show "cursor_inv (snd (m0, w0))" using assms(2) by simp
  qed (auto intro: cursor_inv_Update cursor_inv_runStage)
  then show ?thesis by simp
qed

lemma log_inv_Update:
  "log_inv lf clk w \<Longrightarrow> Update upd m w ms = Inr (m', w', c) \<Longrightarrow> log_inv lf clk w'"
  by (drule Update_cases)
    (auto simp: log_inv_def log_effect_fields log_effect_logFile split: if_splits)

lemma log_inv_runStage:
  "log_inv lf clk w \<Longrightarrow> runStage w = Inr (w', ms) \<Longrightarrow> log_inv lf clk w'"
  by (drule runStage_cases) (auto simp: log_inv_def)

lemma skip_inv_Update:
  "skip_inv i w \<Longrightarrow> Update upd m w ms = Inr (m', w', c) \<Longrightarrow> skip_inv i w'"
  by (drule Update_cases)
    (auto simp: skip_inv_def log_effect_fields nth_list_update split: if_splits)

lemma skip_inv_runStage:
  "skip_inv i w \<Longrightarrow> runStage w = Inr (w', ms) \<Longrightarrow> skip_inv i w'"
  by (drule runStage_cases) (auto simp: skip_inv_def nth_list_update)

lemma length_inv_reach:
  assumes "reach upd (m0, w0) (m, w)"
  shows "length (stages w) = length (stages w0)"
proof -
  have "length (stages (snd (m, w))) = length (stages w0)"
    using assms
  proof (rule reach_invariant)
    fix m w ms m' w' c
    assume "length (stages (snd (m, w))) = length (stages w0)"
      and "Update upd m w ms = Inr (m', w', c)"
    then show "length (stages (snd (m', w'))) = length (stages w0)"
      by (auto dest!: Update_cases simp: log_effect_fields split: if_splits)
  next
    fix m w w' ms
    assume "length (stages (snd (m, w))) = length (stages w0)" and "runStage w = Inr (w', ms)"
    then show "length (stages (snd (m, w'))) = length (stages w0)"
      by (auto dest!: runStage_shape)
  qed simp
  then show ?thesis by simp
qed

lemma reach_trans:
  assumes "reach upd a b" and "reach upd b c"
  shows "reach upd a c"
  using assms(2)
proof (induction rule: reach.induct)
  case reach_start
  show ?case by (rule assms(1))
next
  case (reach_Update m w ms m' w' c)
  then show ?case by (blast intro: reach.reach_Update)
next
  case (reach_runStage m w w' ms)
  then show ?case by (blast intro: reach.reach_runStage)
qed

lemma pump_Waiting:
  "pump upd m w NilCmd = Waiting m w" "pump upd m w (SpinnerCmd t) = Waiting m w"
  "pump upd m w (Batch cs) = Waiting m w"
  by (subst pump.simps, simp)+

lemma pump_reach:
  "pump upd m w c = Exited m' w' \<Longrightarrow> reach upd (m, w) (m', w')"
proof (induction upd m w c rule: pump.induct)
  case (1 upd m w c)
  show ?case
  proof (cases c)
    case Quit
    with "1.prems" show ?thesis by (simp add: pump_Quit reach_start)
  next
    case RunStage
    with "1.prems" obtain w1 ms where r: "runStage w = Inr (w1, ms)"
      by (auto simp: pump_RunStage split: sum.splits)
    with "1.prems" RunStage obtain m1 w2 c1 where u: "Update upd m w1 ms = Inr (m1, w2, c1)"
      and p: "pump upd m1 w2 c1 = Exited m' w'"
      by (auto simp: pump_RunStage split: sum.splits)
    from "1.IH"(1) [OF RunStage r refl u refl refl p]
    have "reach upd (m1, w2) (m', w')" .
    moreover have "reach upd (m, w) (m1, w2)"
      using reach_Update [OF reach_runStage [OF reach_start r] u] .
    ultimately show ?thesis by (rule reach_trans [rotated])
  next
    case StartDeployCmd
    with "1.prems" have p: "pump upd m w RunStage = Exited m' w'"
      by (simp add: pump_StartDeployCmd)
    have u: "Update upd m w startDeployCmd = Inr (m, w, RunStage)"
      by (simp add: startDeployCmd_def Update_StartDeploy)
    from "1.IH"(2) [OF StartDeployCmd u refl refl p]
    show ?thesis .
  qed (use "1.prems" in \<open>simp_all add: pump_Waiting\<close>)
qed

lemma run_main_failed:
  "run example_spinner_Update 0 (initial_world stages_main None None ''t'') =
     Exited (initialModel 0\<lparr>model_Error := Some ''This one errored''\<rparr>) world_main_failed"
proof -
  let ?w0 = "initial_world stages_main None None ''t''"
  have "stages ?w0 = [] @ [stages_main ! 0] @ (stages_main ! 1) # [stages_main ! 2]"
    and "stageIndex ?w0 = length ([] :: Stage list)"
    and "\<forall>s\<in>set [stages_main ! 0]. completes s"
    and "fails (stages_main ! 1) ''This one errored''"
    by (simp_all add: initial_world_def stages_main_def completes_def fails_def)
  from pump_fails [OF this, of example_spinner_Update "initialModel 0"]
  show ?thesis
    by (simp add: run_def pump_StartDeployCmd world_main_failed_def log_effect_def
        initial_world_def stages_main_def finished_def)
qed

lemma reach_main_failed:
  "reach example_spinner_Update (initialModel 0, initial_world stages_main None None ''t'')
     (initialModel 0\<lparr>model_Error := Some ''This one errored''\<rparr>, world_main_failed)"
  using run_main_failed by (simp add: run_def pump_StartDeployCmd pump_reach)

lemma foldl_append_lines: "foldl (\<lambda>sb x. sb @ f x) sb xs = sb @ concat (map f xs)"
  by (induction xs arbitrary: sb) simp_all

lemma pump_p0_Quit: "pump_p0 upd m w Quit = Exited m w"
  by (subst pump_p0.simps) simp

lemma pump_p0_RunStage:
  "pump_p0 upd m w RunStage =
     (case runStage_p0 w of
        Inl p \<Rightarrow> Panicked p
      | Inr (w1, ms) \<Rightarrow>
          (case Update_p0 upd m w1 ms of
             Inl p \<Rightarrow> Panicked p
           | Inr (m', w', c') \<Rightarrow> pump_p0 upd m' w' c'))"
  by (subst pump_p0.simps) simp

lemma pump_p0_StartDeployCmd: "pump_p0 upd m w StartDeployCmd = pump_p0 upd m w RunStage"
  by (subst pump_p0.simps) (simp add: startDeployCmd_def Update_p0_StartDeploy)

lemma main_error_surfaced:
  "run example_spinner_Update 0 (initial_world stages_main None None ''t'') =
     Exited (initialModel 0\<lparr>model_Error := Some ''This one errored''\<rparr>) world_main_failed \<and>
   Error (stages world_main_failed ! 1) = Some ''This one errored'' \<and>
   renderCheckbox example_fg (stages world_main_failed ! 1) = glyph_error \<and>
   logFile world_main_failed = Some (log_text ''t'' [] ''This one errored'')"
  using run_main_failed
  by (simp add: world_main_failed_def stages_main_def renderCheckbox_def example_fg_def)

section \<open>The claims\<close>

subsection \<open>C1: a stage whose action fails\<close>

text \<open>
  C1. In a run in which the action of stage \<open>i\<close> returns an error \<open>e\<close> (the stages
  before it complete, every stage starts with no error and not complete), the processing
  of the stage-complete message ends the run in the failed state: \<open>Update\<close> returns
  \<^verbatim>\<open>tea.Quit\<close> with the model's error set to \<open>e\<close>, and \<open>writeCommandLogFile\<close> has been
  called once (the file holds the log when it could be created, the creation error is
  printed otherwise). Stage \<open>i\<close> holds \<open>e\<close> and is not complete, the stages before \<open>i\<close>
  are complete without error, and every stage after \<open>i\<close> is as it was at the start: not
  complete, without error, its action never called.
\<close>

theorem run_stage_fails:
  assumes "stgs = good @ bad # post"
    and "\<forall>s\<in>set stgs. fresh s"
    and "\<forall>s\<in>set good. completes s"
    and "fails bad e"
  shows "\<exists>m w. run upd sp (initial_world stgs lf ce clk) = Exited m w \<and>
     model_Error m = Some e \<and>
     stageIndex w = length good \<and>
     length (stages w) = length stgs \<and>
     (\<forall>j<length good. IsComplete (stages w ! j) \<and> Error (stages w ! j) = None) \<and>
     Error (stages w ! length good) = Some e \<and>
     \<not> IsComplete (stages w ! length good) \<and>
     (\<forall>j. length good < j \<and> j < length stgs \<longrightarrow>
        stages w ! j = stgs ! j \<and> \<not> IsComplete (stages w ! j) \<and> Error (stages w ! j) = None \<and>
        (\<forall>r. ActionCalled j r \<notin> set (trace w))) \<and>
     filter is_OsCreate (trace w) = [OsCreate ce] \<and>
     (ce = None \<longrightarrow> logFile w = Some (log_text clk [] e) \<and> stdout w = []) \<and>
     (\<forall>x. ce = Some x \<longrightarrow> logFile w = lf \<and> stdout w = x @ nl)"
proof -
  let ?w0 = "initial_world stgs lf ce clk"
  let ?n = "length good"
  let ?w1 = "?w0\<lparr>stages := map finished good @ bad\<lparr>Error := Some e\<rparr> # post,
             stageIndex := ?n,
             trace := calls_from 0 good @ [PredicateCalled ?n False, ActionCalled ?n (Some e)]\<rparr>"
  define wf where "wf = log_effect e ?w1"
  have "stages ?w0 = [] @ good @ bad # post" and "stageIndex ?w0 = length ([] :: Stage list)"
    by (simp_all add: initial_world_def assms(1))
  from pump_fails [OF this assms(3,4), of upd "initialModel sp"]
  have r: "run upd sp ?w0 = Exited (initialModel sp\<lparr>model_Error := Some e\<rparr>) wf"
    by (simp add: run_def pump_StartDeployCmd initial_world_def wf_def)
  have st: "stages wf = map finished good @ bad\<lparr>Error := Some e\<rparr> # post"
    and ix: "stageIndex wf = ?n"
    and tr: "trace wf =
      calls_from 0 good @ [PredicateCalled ?n False, ActionCalled ?n (Some e), OsCreate ce]"
    by (simp_all add: wf_def log_effect_def initial_world_def split: option.splits)
  have before: "\<forall>j<?n. IsComplete (stages wf ! j) \<and>
      Error (stages wf ! j) = None"
    unfolding st by (simp add: nth_append finished_props)
  have bad: "\<not> IsComplete bad" using assms(1,2) by (simp add: fresh_def)
  have after: "\<forall>j. ?n < j \<and> j < length stgs \<longrightarrow>
        stages wf ! j = stgs ! j \<and> \<not> IsComplete (stages wf ! j) \<and>
        Error (stages wf ! j) = None \<and>
        (\<forall>r. ActionCalled j r \<notin> set (trace wf))"
  proof (intro allI impI)
    fix j assume j: "?n < j \<and> j < length stgs"
    then have same: "stages wf ! j = stgs ! j"
      unfolding st assms(1) by (simp add: nth_append nth_Cons split: nat.splits)
    from j have "stgs ! j \<in> set stgs" by simp
    with assms(2) have "fresh (stgs ! j)" by blast
    moreover have "\<forall>r. ActionCalled j r \<notin> set (trace wf)"
    proof
      fix r
      show "ActionCalled j r \<notin> set (trace wf)"
      proof
        assume "ActionCalled j r \<in> set (trace wf)"
        with j have "ActionCalled j r \<in> set (calls_from 0 good)" unfolding tr by auto
        from calls_from_index [OF this] j show False by auto
      qed
    qed
    ultimately show "stages wf ! j = stgs ! j \<and>
        \<not> IsComplete (stages wf ! j) \<and>
        Error (stages wf ! j) = None \<and>
        (\<forall>r. ActionCalled j r \<notin> set (trace wf))"
      using same by (simp add: fresh_def)
  qed
  have log: "(ce = None \<longrightarrow> logFile wf = Some (log_text clk [] e) \<and>
        stdout wf = []) \<and>
     (\<forall>x. ce = Some x \<longrightarrow> logFile wf = lf \<and> stdout wf = x @ nl)"
    by (simp add: wf_def log_effect_def initial_world_def)
  have "model_Error (initialModel sp\<lparr>model_Error := Some e\<rparr>) = Some e" by simp
  moreover have "length (stages wf) = length stgs"
    unfolding st by (simp add: assms(1))
  moreover have "Error (stages wf ! ?n) = Some e"
    and "\<not> IsComplete (stages wf ! ?n)"
    using bad unfolding st by (simp_all add: nth_append)
  moreover have "filter is_OsCreate (trace wf) = [OsCreate ce]"
    unfolding tr by (simp add: calls_from_no_create)
  ultimately show ?thesis using r ix before after log by blast
qed

theorem run_stage_fails_witness:
  "stages_main = [stages_main ! 0] @ (stages_main ! 1) # [stages_main ! 2] \<and>
   list_all fresh stages_main \<and>
   completes (stages_main ! 0) \<and>
   fails (stages_main ! 1) ''This one errored'' \<and>
   (\<exists>m w. run example_spinner_Update 0 (initial_world stages_main None None ''t'') = Exited m w \<and>
     model_Error m = Some ''This one errored'' \<and>
     stageIndex w = 1 \<and>
     IsComplete (stages w ! 0) \<and> Error (stages w ! 0) = None \<and>
     Error (stages w ! 1) = Some ''This one errored'' \<and>
     \<not> IsComplete (stages w ! 1) \<and>
     stages w ! 2 = stages_main ! 2 \<and>
     (\<forall>r. ActionCalled 2 r \<notin> set (trace w)) \<and>
     filter is_OsCreate (trace w) = [OsCreate None] \<and>
     logFile w = Some (log_text ''t'' [] ''This one errored''))"
proof -
  have h1: "stages_main = [stages_main ! 0] @ (stages_main ! 1) # [stages_main ! 2]"
    and h2: "\<forall>s\<in>set stages_main. fresh s"
    and h3: "\<forall>s\<in>set [stages_main ! 0]. completes s"
    and h4: "fails (stages_main ! 1) ''This one errored''"
    by (simp_all add: stages_main_def fresh_def completes_def fails_def)
  have len: "length stages_main = 3" by (simp add: stages_main_def)
  from run_stage_fails [OF h1 h2 h3 h4, of example_spinner_Update 0 None None "''t''"]
  obtain m w where
    r: "run example_spinner_Update 0 (initial_world stages_main None None ''t'') = Exited m w"
    and p: "model_Error m = Some ''This one errored''" "stageIndex w = 1"
      "\<forall>j<1. IsComplete (stages w ! j) \<and> Error (stages w ! j) = None"
      "Error (stages w ! 1) = Some ''This one errored''" "\<not> IsComplete (stages w ! 1)"
    and q: "\<forall>j. 1 < j \<and> j < 3 \<longrightarrow> stages w ! j = stages_main ! j \<and>
        \<not> IsComplete (stages w ! j) \<and> Error (stages w ! j) = None \<and>
        (\<forall>r. ActionCalled j r \<notin> set (trace w))"
    and l: "filter is_OsCreate (trace w) = [OsCreate None]"
      "logFile w = Some (log_text ''t'' [] ''This one errored'')"
    unfolding len by auto
  from q have "stages w ! 2 = stages_main ! 2 \<and> (\<forall>r. ActionCalled 2 r \<notin> set (trace w))"
    by simp
  with r p l h1 h2 h3 h4 show ?thesis by (auto simp: list_all_iff)
qed

subsection \<open>C2: a run in which every stage completes\<close>

text \<open>
  C2, as the code has it: for every list of \<open>N \<ge> 1\<close> stages that all complete (the
  predicate reports true and the stage, which holds no error at the start, is skipped, or
  the predicate reports false and the action runs and returns \<^verbatim>\<open>nil\<close>), the run ends by
  \<^verbatim>\<open>tea.Quit\<close> with no error in the model, the cursor at \<open>N - 1\<close>, every stage complete
  and without error, and no call of \<^verbatim>\<open>os.Create\<close>.
\<close>

theorem run_all_succeed:
  assumes "stgs \<noteq> []" and "\<forall>s\<in>set stgs. completes s"
  shows "\<exists>m w. run upd sp (initial_world stgs lf ce clk) = Exited m w \<and>
     model_Error m = None \<and>
     stageIndex w = length stgs - 1 \<and>
     length (stages w) = length stgs \<and>
     (\<forall>s\<in>set (stages w). IsComplete s \<and> Error s = None) \<and>
     filter is_OsCreate (trace w) = [] \<and> logFile w = lf"
proof -
  let ?w0 = "initial_world stgs lf ce clk"
  have "stages ?w0 = [] @ stgs" and "stageIndex ?w0 = length ([] :: Stage list)"
    by (simp_all add: initial_world_def)
  from pump_all_complete [OF this assms(2,1), of upd "initialModel sp"]
  have "run upd sp ?w0 =
      Exited (initialModel sp) (?w0\<lparr>stages := map finished stgs, stageIndex := length stgs - 1,
        trace := trace ?w0 @ calls_from 0 stgs\<rparr>)"
    by (simp add: run_def pump_StartDeployCmd)
  then show ?thesis
    by (simp add: initialModel_def finished_props initial_world_def calls_from_no_create)
qed

theorem run_all_succeed_witness:
  "[stage_skipped, hd stages_main] \<noteq> [] \<and>
   list_all completes [stage_skipped, hd stages_main] \<and>
   (\<exists>m w. run example_spinner_Update 0 (initial_world [stage_skipped, hd stages_main] None None ''t'') = Exited m w \<and>
     model_Error m = None \<and>
     stageIndex w = length [stage_skipped, hd stages_main] - 1 \<and>
     length (stages w) = length [stage_skipped, hd stages_main] \<and>
     (\<forall>s\<in>set (stages w). IsComplete s \<and> Error s = None) \<and>
     filter is_OsCreate (trace w) = [] \<and> logFile w = None)"
  using run_all_succeed [of "[stage_skipped, hd stages_main]" example_spinner_Update 0 None None "''t''"]
  by (simp add: completes_def stage_skipped_def stages_main_def)

text \<open>
  C2 as stated includes \<open>N = 0\<close>. With no stage, \<open>runStage\<close> indexes the empty list at 0:
  the run panics and never reaches the succeeded state.
\<close>

theorem run_no_stages_counterexample:
  "run example_spinner_Update 0 (initial_world [] None None ''t'') = Panicked IndexOutOfRange"
  by (simp add: run_def pump_StartDeployCmd pump_RunStage runStage_def initial_world_def)

subsection \<open>C3: the error of a stage action is surfaced\<close>

text \<open>
  C3 asks that an error returned by a stage action is recorded on the stage, rendered as the
  failure glyph and written to the log. \<^verbatim>\<open>main.go\<close> does so (\<open>main_error_surfaced\<close>). The
  program of \<^verbatim>\<open>part_000\<close> does not: on its own stage list, the action of stage One is
  called and returns an error, \<open>runStage\<close> stores it in a copy of the stage, and the run
  ends by \<^verbatim>\<open>tea.Quit\<close> with no error in the model, both stages complete and without error,
  and the complete glyph rendered for stage One. The action of stage Two is run although
  stage One failed.
\<close>

theorem part000_error_discarded:
  "run_p0 example_spinner_Update 0 (initial_world_p0 stages_part000) =
     Exited (initialModel 0)
       \<lparr>stages_p0 =
          [(stages_part000 ! 0)\<lparr>IsComplete_p0 := True\<rparr>, (stages_part000 ! 1)\<lparr>IsComplete_p0 := True\<rparr>],
        stageIndex_p0 = 1,
        trace_p0 = [ActionCalled 0 (Some ''This one errored''), ActionCalled 1 None]\<rparr> \<and>
   Error_p0 ((stages_part000 ! 0)\<lparr>IsComplete_p0 := True\<rparr>) = None \<and>
   model_Error (initialModel (0::nat)) = None \<and>
   renderCheckbox_p0 example_fg ((stages_part000 ! 0)\<lparr>IsComplete_p0 := True\<rparr>) = glyph_complete_p0"
  by (simp add: run_p0_def pump_p0_StartDeployCmd pump_p0_RunStage pump_p0_Quit runStage_p0_def
      Update_p0_def initial_world_p0_def stages_part000_def initialModel_def renderCheckbox_p0_def
      example_fg_def)

subsection \<open>C4: the view\<close>

text \<open>
  C4, as the code has it. The view is a function of the stage list, the cursor and the
  spinner only. After the header line it has one line for each stage, in list order: the
  error glyph when the stage holds an error, else the complete glyph when it is complete,
  else the pending glyph; then the spinner when the stage is not complete, pending or
  errored alike, and a blank when it is complete; then the name.
\<close>

theorem View_lines:
  assumes "stageIndex w < length (stages w)"
  shows "View fg sv m w =
       Inr (''Current stage: '' @ Name (stages w ! stageIndex w) @ nl @
            concat (map (\<lambda>s.
              (if Error s \<noteq> None then fg ''196'' glyph_error
               else if IsComplete s then fg ''170'' glyph_complete
               else glyph_pending) @ '' '' @
              (if IsComplete s then '' '' else sv (spinner m)) @ '' '' @ Name s @ nl) (stages w))) \<and>
     (stages w' = stages w \<and> stageIndex w' = stageIndex w \<and> spinner m' = spinner m \<longrightarrow>
        View fg sv m' w' = View fg sv m w)"
proof -
  let ?line = "\<lambda>s. renderCheckbox fg s @ '' '' @ renderWorkingStatus sv m s @ nl"
  have "View fg sv m w =
      Inr ((''Current stage: '' @ Name (stages w ! stageIndex w) @ nl) @ concat (map ?line (stages w)))"
    using assms foldl_append_lines [of ?line] by (simp add: View_def)
  moreover have "?line = (\<lambda>s.
              (if Error s \<noteq> None then fg ''196'' glyph_error
               else if IsComplete s then fg ''170'' glyph_complete
               else glyph_pending) @ '' '' @
              (if IsComplete s then '' '' else sv (spinner m)) @ '' '' @ Name s @ nl)"
    by (auto simp: renderCheckbox_def renderWorkingStatus_def fun_eq_iff)
  moreover have "stages w' = stages w \<and> stageIndex w' = stageIndex w \<and> spinner m' = spinner m \<longrightarrow>
        View fg sv m' w' = View fg sv m w"
  proof
    assume "stages w' = stages w \<and> stageIndex w' = stageIndex w \<and> spinner m' = spinner m"
    then have "stages w' = stages w" "stageIndex w' = stageIndex w"
      "renderWorkingStatus sv m' = renderWorkingStatus sv m"
      by (simp_all add: renderWorkingStatus_def fun_eq_iff)
    then show "View fg sv m' w' = View fg sv m w" by (simp add: View_def)
  qed
  ultimately show ?thesis by simp
qed

theorem View_lines_witness:
  "stageIndex world_main_failed < length (stages world_main_failed) \<and>
   View example_fg example_spinner_View (initialModel 0) world_main_failed =
     Inr (''Current stage: Two'' @ nl @
          glyph_complete @ ''   One'' @ nl @
          glyph_error @ '' . Two'' @ nl @
          glyph_pending @ '' . Three'' @ nl)"
proof -
  have h: "stageIndex world_main_failed < length (stages world_main_failed)"
    by (simp add: world_main_failed_def)
  from View_lines [OF h, where fg = example_fg and sv = example_spinner_View
      and m = "initialModel 0" and m' = "initialModel 0" and w' = world_main_failed] h
  show ?thesis
    by (simp add: world_main_failed_def stages_main_def example_fg_def example_spinner_View_def
        initialModel_def)
qed

text \<open>
  C4 as stated has a blank beside an errored stage. Stage Two of the failed run holds an
  error and is not complete: the code renders the spinner frame beside it.
\<close>

theorem spinner_beside_error_counterexample:
  "Error (stages world_main_failed ! 1) = Some ''This one errored'' \<and>
   renderWorkingStatus example_spinner_View (initialModel 0) (stages world_main_failed ! 1) = ''. Two'' \<and>
   spec_working_status example_spinner_View (initialModel 0) (stages world_main_failed ! 1) = ''  Two''"
  by (simp add: renderWorkingStatus_def spec_working_status_def world_main_failed_def
      stages_main_def example_spinner_View_def initialModel_def)

subsection \<open>C5: a stage whose predicate reports true\<close>

text \<open>
  C5. Let stage \<open>i\<close> have a completion predicate that reports true (and, as every stage
  at program start, no error). In every state of every run the action of stage \<open>i\<close> has
  not been called and the stage holds no error. When the cursor is at \<open>i\<close>, \<open>runStage\<close>
  calls the predicate only and returns the stage-complete message; processing that message
  marks the stage complete, leaves its error \<^verbatim>\<open>nil\<close>, and goes on as after a successful
  action: \<^verbatim>\<open>runStage\<close> for stage \<open>i + 1\<close> when there is one, \<^verbatim>\<open>tea.Quit\<close> otherwise.
\<close>

theorem skipped_stage:
  assumes "i < length stgs" and "IsCompleteFunc (stgs ! i) = Func True"
    and "Error (stgs ! i) = None"
    and "reach upd (m0, initial_world stgs lf ce clk) (m, w)"
  shows "(\<forall>r. ActionCalled i r \<notin> set (trace w)) \<and>
     Error (stages w ! i) = None \<and>
     (stageIndex w = i \<longrightarrow>
        (\<exists>w1 w2 c. runStage w = Inr (w1, StageCompleteMsg) \<and>
           stages w1 = stages w \<and>
           trace w1 = trace w @ [PredicateCalled i True] \<and>
           Update upd m w1 StageCompleteMsg = Inr (m, w2, c) \<and>
           IsComplete (stages w2 ! i) \<and>
           Error (stages w2 ! i) = None \<and>
           trace w2 = trace w1 \<and>
           (if i + 1 < length stgs then c = RunStage \<and> stageIndex w2 = i + 1
            else c = Quit \<and> stageIndex w2 = i)))"
proof -
  let ?w0 = "initial_world stgs lf ce clk"
  have "skip_inv i (snd (m, w))"
    using assms(4)
  proof (rule reach_invariant)
    show "skip_inv i (snd (m0, ?w0))"
      using assms(1-3) by (simp add: skip_inv_def initial_world_def)
  qed (auto intro: skip_inv_Update skip_inv_runStage)
  then have inv: "skip_inv i w" by simp
  have len: "length (stages w) = length stgs"
    using length_inv_reach [OF assms(4)] by (simp add: initial_world_def)
  have "stageIndex w = i \<longrightarrow>
        (\<exists>w1 w2 c. runStage w = Inr (w1, StageCompleteMsg) \<and>
           stages w1 = stages w \<and>
           trace w1 = trace w @ [PredicateCalled i True] \<and>
           Update upd m w1 StageCompleteMsg = Inr (m, w2, c) \<and>
           IsComplete (stages w2 ! i) \<and>
           Error (stages w2 ! i) = None \<and>
           trace w2 = trace w1 \<and>
           (if i + 1 < length stgs then c = RunStage \<and> stageIndex w2 = i + 1
            else c = Quit \<and> stageIndex w2 = i))"
  proof
    assume ix: "stageIndex w = i"
    let ?w1 = "w\<lparr>trace := trace w @ [PredicateCalled i True]\<rparr>"
    have r: "runStage w = Inr (?w1, StageCompleteMsg)"
      using inv ix by (simp add: runStage_def skip_inv_def Let_def)
    let ?w2 = "if i + 1 < length stgs
      then ?w1\<lparr>stages := (stages w)[i := (stages w ! i)\<lparr>IsComplete := True\<rparr>], stageIndex := i + 1\<rparr>
      else ?w1\<lparr>stages := (stages w)[i := (stages w ! i)\<lparr>IsComplete := True\<rparr>]\<rparr>"
    let ?c = "if i + 1 < length stgs then RunStage else Quit"
    have u: "Update upd m ?w1 StageCompleteMsg = Inr (m, ?w2, ?c)"
      using inv ix len by (simp add: Update_def skip_inv_def Let_def)
    have "IsComplete (stages ?w2 ! i)" "Error (stages ?w2 ! i) = None" "trace ?w2 = trace ?w1"
      "if i + 1 < length stgs then ?c = RunStage \<and> stageIndex ?w2 = i + 1
            else ?c = Quit \<and> stageIndex ?w2 = i"
      using inv ix by (simp_all add: skip_inv_def)
    with r u show "\<exists>w1 w2 c. runStage w = Inr (w1, StageCompleteMsg) \<and>
           stages w1 = stages w \<and>
           trace w1 = trace w @ [PredicateCalled i True] \<and>
           Update upd m w1 StageCompleteMsg = Inr (m, w2, c) \<and>
           IsComplete (stages w2 ! i) \<and>
           Error (stages w2 ! i) = None \<and>
           trace w2 = trace w1 \<and>
           (if i + 1 < length stgs then c = RunStage \<and> stageIndex w2 = i + 1
            else c = Quit \<and> stageIndex w2 = i)"
      by (intro exI [of _ ?w1] exI [of _ ?w2] exI [of _ ?c]) simp
  qed
  with inv show ?thesis by (simp add: skip_inv_def)
qed

theorem skipped_stage_witness:
  "0 < length [stage_skipped, stages_main ! 0] \<and>
   IsCompleteFunc ([stage_skipped, stages_main ! 0] ! 0) = Func True \<and>
   Error ([stage_skipped, stages_main ! 0] ! 0) = None \<and>
   reach example_spinner_Update
     (initialModel 0, initial_world [stage_skipped, stages_main ! 0] None None ''t'')
     (initialModel 0, initial_world [stage_skipped, stages_main ! 0] None None ''t'') \<and>
   (\<exists>w1 w2 c.
      runStage (initial_world [stage_skipped, stages_main ! 0] None None ''t'') =
        Inr (w1, StageCompleteMsg) \<and>
      trace w1 = [PredicateCalled 0 True] \<and>
      Update example_spinner_Update (initialModel 0) w1 StageCompleteMsg =
        Inr (initialModel 0, w2, c) \<and>
      IsComplete (stages w2 ! 0) \<and> Error (stages w2 ! 0) = None \<and>
      c = RunStage \<and> stageIndex w2 = 1)"
proof -
  let ?stgs = "[stage_skipped, stages_main ! 0]"
  let ?c0 = "(initialModel (0::nat), initial_world ?stgs None None ''t'')"
  have h: "0 < length ?stgs" "IsCompleteFunc (?stgs ! 0) = Func True" "Error (?stgs ! 0) = None"
    by (simp_all add: stage_skipped_def)
  have r: "reach example_spinner_Update ?c0 ?c0" by (rule reach_start)
  have ix: "stageIndex (initial_world ?stgs None None ''t'') = 0"
    and tr: "trace (initial_world ?stgs None None ''t'') = []"
    by (simp_all add: initial_world_def)
  from skipped_stage [OF h r] ix tr h r show ?thesis by auto
qed

subsection \<open>C6: a stage without a completion predicate\<close>

text \<open>
  C6, as the code has it. \<open>runStage\<close> calls the completion predicate of the current stage
  without a test for \<^verbatim>\<open>nil\<close>: when the predicate is \<^verbatim>\<open>nil\<close> the call panics and the
  action is not run. When the predicate is present and reports false, the action is called
  and its result stored in the stage's error.
\<close>

theorem runStage_predicate:
  assumes "stageIndex w < length (stages w)"
  shows "(IsCompleteFunc (stages w ! stageIndex w) = NilFunc \<longrightarrow> runStage w = Inl NilFuncCall) \<and>
     (IsCompleteFunc (stages w ! stageIndex w) = Func False \<longrightarrow>
      Action (stages w ! stageIndex w) = Func r \<longrightarrow>
        runStage w =
          Inr (w\<lparr>stages := (stages w)[stageIndex w := (stages w ! stageIndex w)\<lparr>Error := r\<rparr>],
                 trace := trace w @ [PredicateCalled (stageIndex w) False,
                                     ActionCalled (stageIndex w) r]\<rparr>,
               StageCompleteMsg))"
  using assms by (simp add: runStage_def Let_def)

theorem runStage_predicate_witness:
  "stageIndex (initial_world [stage_without_predicate] None None ''t'') <
     length (stages (initial_world [stage_without_predicate] None None ''t'')) \<and>
   IsCompleteFunc (stages (initial_world [stage_without_predicate] None None ''t'') ! 0) = NilFunc \<and>
   runStage (initial_world [stage_without_predicate] None None ''t'') = Inl NilFuncCall \<and>
   stageIndex (initial_world stages_main None None ''t'') <
     length (stages (initial_world stages_main None None ''t'')) \<and>
   IsCompleteFunc (stages (initial_world stages_main None None ''t'') ! 0) = Func False \<and>
   Action (stages (initial_world stages_main None None ''t'') ! 0) = Func None \<and>
   runStage (initial_world stages_main None None ''t'') =
     Inr (initial_world stages_main None None ''t''
            \<lparr>trace := [PredicateCalled 0 False, ActionCalled 0 None]\<rparr>, StageCompleteMsg)"
proof -
  let ?a = "initial_world [stage_without_predicate] None None ''t''"
  let ?b = "initial_world stages_main None None ''t''"
  have a: "stageIndex ?a < length (stages ?a)" "stageIndex ?a = 0"
    "IsCompleteFunc (stages ?a ! 0) = NilFunc"
    by (simp_all add: initial_world_def stage_without_predicate_def)
  have b: "stageIndex ?b < length (stages ?b)" "stageIndex ?b = 0"
    "IsCompleteFunc (stages ?b ! 0) = Func False" "Action (stages ?b ! 0) = Func None"
    by (simp_all add: initial_world_def stages_main_def)
  have same: "?b\<lparr>stages := (stages ?b)[0 := (stages ?b ! 0)\<lparr>Error := None\<rparr>],
      trace := trace ?b @ [PredicateCalled 0 False, ActionCalled 0 None]\<rparr> =
      ?b\<lparr>trace := [PredicateCalled 0 False, ActionCalled 0 None]\<rparr>"
    by (simp add: initial_world_def stages_main_def)
  from runStage_predicate [OF a(1)] a
  have "runStage ?a = Inl NilFuncCall" by simp
  moreover from runStage_predicate [OF b(1), of None] b same
  have "runStage ?b = Inr (?b\<lparr>trace := [PredicateCalled 0 False, ActionCalled 0 None]\<rparr>,
      StageCompleteMsg)" by simp
  ultimately show ?thesis using a b by simp
qed

text \<open>
  C6 as stated: a stage with no predicate behaves as one whose predicate reports false. It
  does not: the first panics, the second runs its action.
\<close>

theorem runStage_nil_predicate_counterexample:
  "runStage (initial_world [stage_without_predicate] None None ''t'') = Inl NilFuncCall \<and>
   runStage (initial_world [stage_without_predicate\<lparr>IsCompleteFunc := Func False\<rparr>] None None ''t'') =
     Inr (initial_world [stage_without_predicate\<lparr>IsCompleteFunc := Func False\<rparr>] None None ''t''
            \<lparr>trace := [PredicateCalled 0 False, ActionCalled 0 None]\<rparr>, StageCompleteMsg)"
  by (simp add: runStage_def initial_world_def stage_without_predicate_def)

subsection \<open>C7: the failure log is written once, in three sections\<close>

text \<open>
  C7. From a start state (cursor 0, no call made yet): when a stage fails after the stages
  before it completed, the run makes one call of \<^verbatim>\<open>os.Create\<close>, and the file it creates
  holds the line with the time, then the steps-taken section with the entries of the
  command log in their order, then the error section with the text of the stage's error.
  When every stage completes, the run makes no call of \<^verbatim>\<open>os.Create\<close> and the log file is
  what it was.
\<close>

theorem failure_log_once:
  assumes "stageIndex w0 = 0" and "trace w0 = []"
  shows "(stages w0 = good @ bad # post \<and> list_all completes good \<and> fails bad e \<longrightarrow>
       (\<exists>m w. run upd sp w0 = Exited m w \<and>
          filter is_OsCreate (trace w) = [OsCreate (osCreateErr w0)] \<and>
          (osCreateErr w0 = None \<longrightarrow>
             logFile w = Some (timestamp_line (clock w0) @ steps_section (commandLog w0) @ nl @ nl @
                               error_section e)))) \<and>
     (stages w0 \<noteq> [] \<and> list_all completes (stages w0) \<longrightarrow>
       (\<exists>m w. run upd sp w0 = Exited m w \<and>
          filter is_OsCreate (trace w) = [] \<and> logFile w = logFile w0))"
proof (intro conjI impI)
  assume a: "stages w0 = good @ bad # post \<and> list_all completes good \<and> fails bad e"
  let ?n = "length good"
  define wf where "wf = log_effect e
     (w0\<lparr>stages := map finished good @ bad\<lparr>Error := Some e\<rparr> # post,
         stageIndex := ?n,
         trace := calls_from 0 good @ [PredicateCalled ?n False, ActionCalled ?n (Some e)]\<rparr>)"
  from a assms have "stages w0 = [] @ good @ bad # post"
    and "stageIndex w0 = length ([] :: Stage list)" and "\<forall>s\<in>set good. completes s" and "fails bad e"
    by (simp_all add: list_all_iff)
  from pump_fails [OF this, of upd "initialModel sp"] assms
  have r: "run upd sp w0 = Exited (initialModel sp\<lparr>model_Error := Some e\<rparr>) wf"
    by (simp add: run_def pump_StartDeployCmd wf_def)
  have t: "filter is_OsCreate (trace wf) = [OsCreate (osCreateErr w0)]"
    by (simp add: wf_def log_effect_fields calls_from_no_create)
  have l: "osCreateErr w0 = None \<longrightarrow>
      logFile wf =
        Some (timestamp_line (clock w0) @ steps_section (commandLog w0) @ nl @ nl @ error_section e)"
    by (simp add: wf_def log_effect_logFile log_text_def)
  from r t l show "\<exists>m w. run upd sp w0 = Exited m w \<and>
          filter is_OsCreate (trace w) = [OsCreate (osCreateErr w0)] \<and>
          (osCreateErr w0 = None \<longrightarrow>
             logFile w = Some (timestamp_line (clock w0) @ steps_section (commandLog w0) @ nl @ nl @
                               error_section e))"
    by (intro exI [of _ "initialModel sp\<lparr>model_Error := Some e\<rparr>"] exI [of _ wf]) simp
next
  assume a: "stages w0 \<noteq> [] \<and> list_all completes (stages w0)"
  define wf where "wf = w0\<lparr>stages := map finished (stages w0), stageIndex := length (stages w0) - 1,
        trace := calls_from 0 (stages w0)\<rparr>"
  from a assms have "stages w0 = [] @ stages w0"
    and "stageIndex w0 = length ([] :: Stage list)" and "\<forall>s\<in>set (stages w0). completes s"
    and "stages w0 \<noteq> []"
    by (simp_all add: list_all_iff)
  from pump_all_complete [OF this, of upd "initialModel sp"] assms
  have r: "run upd sp w0 = Exited (initialModel sp) wf"
    by (simp add: run_def pump_StartDeployCmd wf_def)
  have "filter is_OsCreate (trace wf) = []" "logFile wf = logFile w0"
    by (simp_all add: wf_def calls_from_no_create)
  with r show "\<exists>m w. run upd sp w0 = Exited m w \<and>
          filter is_OsCreate (trace w) = [] \<and> logFile w = logFile w0"
    by (intro exI [of _ "initialModel sp"] exI [of _ wf]) simp
qed

theorem failure_log_once_witness:
  "stageIndex world_logged = 0 \<and> trace world_logged = [] \<and>
   stages world_logged = [stages_main ! 0] @ (stages_main ! 1) # [stages_main ! 2] \<and>
   list_all completes [stages_main ! 0] \<and> fails (stages_main ! 1) ''This one errored'' \<and>
   (\<exists>m w. run example_spinner_Update 0 world_logged = Exited m w \<and>
      filter is_OsCreate (trace w) = [OsCreate None] \<and>
      logFile w = Some (timestamp_line ''t'' @ steps_section [''step one'', ''step two''] @ nl @ nl @
                        error_section ''This one errored'')) \<and>
   stageIndex (initial_world [stage_skipped, stages_main ! 0] (Some ''old'') None ''t'') = 0 \<and>
   trace (initial_world [stage_skipped, stages_main ! 0] (Some ''old'') None ''t'') = [] \<and>
   list_all completes [stage_skipped, stages_main ! 0] \<and>
   (\<exists>m w. run example_spinner_Update 0
             (initial_world [stage_skipped, stages_main ! 0] (Some ''old'') None ''t'') = Exited m w \<and>
      filter is_OsCreate (trace w) = [] \<and> logFile w = Some ''old'')"
proof -
  let ?v = "initial_world [stage_skipped, stages_main ! 0] (Some ''old'') None ''t''"
  have a: "stageIndex world_logged = 0" "trace world_logged = []"
    and a': "stages world_logged = [stages_main ! 0] @ (stages_main ! 1) # [stages_main ! 2]"
      "list_all completes [stages_main ! 0]" "fails (stages_main ! 1) ''This one errored''"
    and f: "osCreateErr world_logged = None" "clock world_logged = ''t''"
      "commandLog world_logged = [''step one'', ''step two'']"
    by (simp_all add: world_logged_def stages_main_def completes_def fails_def)
  have b: "stageIndex ?v = 0" "trace ?v = []"
    and b': "stages ?v \<noteq> []" "list_all completes (stages ?v)"
      "stages ?v = [stage_skipped, stages_main ! 0]" "logFile ?v = Some ''old''"
    by (simp_all add: initial_world_def stages_main_def stage_skipped_def completes_def)
  from failure_log_once [OF a, of "[stages_main ! 0]" "stages_main ! 1" "[stages_main ! 2]"
      "''This one errored''" example_spinner_Update 0] a' f
  have 1: "\<exists>m w. run example_spinner_Update 0 world_logged = Exited m w \<and>
      filter is_OsCreate (trace w) = [OsCreate None] \<and>
      logFile w = Some (timestamp_line ''t'' @ steps_section [''step one'', ''step two''] @ nl @ nl @
                        error_section ''This one errored'')"
    by simp
  from failure_log_once [OF b, of "[]" stage_skipped "[]" "[]" example_spinner_Update 0] b'
  have 2: "\<exists>m w. run example_spinner_Update 0 ?v = Exited m w \<and>
      filter is_OsCreate (trace w) = [] \<and> logFile w = Some ''old''"
    by simp
  from 1 2 a a' b b' show ?thesis by simp
qed

subsection \<open>C8: the log file cannot be created\<close>

text \<open>
  C8. When \<^verbatim>\<open>os.Create\<close> fails with \<open>x\<close> while the current stage holds the error \<open>e\<close>,
  \<open>writeCommandLogFile\<close> prints \<open>x\<close> on the standard output, calls \<^verbatim>\<open>os.Create\<close> once and
  leaves the file alone; \<open>Update\<close> returns \<^verbatim>\<open>tea.Quit\<close> with the model's error set to the
  stage's error \<open>e\<close>, the same command and the same model as when the file can be created.
\<close>

theorem log_create_refused:
  assumes "stageIndex w < length (stages w)"
    and "Error (stages w ! stageIndex w) = Some e"
    and "osCreateErr w = Some x"
  shows "writeCommandLogFile w =
       Inr (w\<lparr>trace := trace w @ [OsCreate (Some x)], stdout := stdout w @ x @ nl\<rparr>) \<and>
     Update upd m w StageCompleteMsg =
       Inr (m\<lparr>model_Error := Some e\<rparr>,
            w\<lparr>trace := trace w @ [OsCreate (Some x)], stdout := stdout w @ x @ nl\<rparr>, Quit) \<and>
     Update upd m (w\<lparr>osCreateErr := None\<rparr>) StageCompleteMsg =
       Inr (m\<lparr>model_Error := Some e\<rparr>,
            w\<lparr>osCreateErr := None, trace := trace w @ [OsCreate None],
              logFile := Some (log_text (clock w) (commandLog w) e)\<rparr>, Quit)"
proof -
  have a: "writeCommandLogFile w =
       Inr (w\<lparr>trace := trace w @ [OsCreate (Some x)], stdout := stdout w @ x @ nl\<rparr>)"
    by (rule writeCommandLogFile_refused [OF assms(3)])
  let ?v = "w\<lparr>osCreateErr := None\<rparr>"
  have "osCreateErr ?v = None" "stageIndex ?v < length (stages ?v)"
    "Error (stages ?v ! stageIndex ?v) = Some e"
    using assms by simp_all
  from writeCommandLogFile_created [OF this]
  have b: "writeCommandLogFile ?v =
      Inr (w\<lparr>osCreateErr := None, trace := trace w @ [OsCreate None],
              logFile := Some (log_text (clock w) (commandLog w) e)\<rparr>)"
    by simp
  from a assms have "Update upd m w StageCompleteMsg =
       Inr (m\<lparr>model_Error := Some e\<rparr>,
            w\<lparr>trace := trace w @ [OsCreate (Some x)], stdout := stdout w @ x @ nl\<rparr>, Quit)"
    by (simp add: Update_def Let_def)
  moreover from b assms have "Update upd m ?v StageCompleteMsg =
       Inr (m\<lparr>model_Error := Some e\<rparr>,
            w\<lparr>osCreateErr := None, trace := trace w @ [OsCreate None],
              logFile := Some (log_text (clock w) (commandLog w) e)\<rparr>, Quit)"
    by (simp add: Update_def Let_def)
  ultimately show ?thesis using a by simp
qed

theorem log_create_refused_witness:
  "stageIndex (world_two_failed (Some ''denied'')) < length (stages (world_two_failed (Some ''denied''))) \<and>
   Error (stages (world_two_failed (Some ''denied'')) ! stageIndex (world_two_failed (Some ''denied''))) =
     Some ''This one errored'' \<and>
   osCreateErr (world_two_failed (Some ''denied'')) = Some ''denied'' \<and>
   Update example_spinner_Update (initialModel 0) (world_two_failed (Some ''denied'')) StageCompleteMsg =
     Inr (initialModel 0\<lparr>model_Error := Some ''This one errored''\<rparr>,
          world_two_failed (Some ''denied'')
            \<lparr>trace := trace (world_two_failed (Some ''denied'')) @ [OsCreate (Some ''denied'')],
              stdout := ''denied'' @ nl\<rparr>, Quit)"
proof -
  let ?w = "world_two_failed (Some ''denied'')"
  have h: "stageIndex ?w < length (stages ?w)"
    "Error (stages ?w ! stageIndex ?w) = Some ''This one errored''"
    "osCreateErr ?w = Some ''denied''"
    by (simp_all add: world_two_failed_def)
  have "stdout ?w = []" by (simp add: world_two_failed_def)
  with log_create_refused [OF h, of example_spinner_Update "initialModel 0"] h
  show ?thesis by simp
qed

subsection \<open>C9: the cursor stays inside the stage list\<close>

text \<open>
  C9. In a run over a non-empty stage list the cursor is an index of the list at the start
  and in every state reached by steps of \<open>Update\<close>, on any message, and of \<open>runStage\<close>:
  no step changes the length of the list, \<open>runStage\<close> leaves the cursor alone, and
  \<open>Update\<close> leaves it alone or adds one to it, the latter only when \<open>stageIndex + 1\<close> is
  below the length. So the index expressions \<^verbatim>\<open>stages[stageIndex]\<close> of \<open>runStage\<close>,
  \<open>View\<close>, \<open>writeCommandLogFile\<close> and \<open>Update\<close> never panic with an index out of range.
\<close>

theorem cursor_in_bounds:
  assumes "stgs \<noteq> []" and "reach upd (m0, initial_world stgs lf ce clk) (m, w)"
  shows "stageIndex w < length (stages w) \<and>
     runStage w \<noteq> Inl IndexOutOfRange \<and>
     View fg sv m w \<noteq> Inl IndexOutOfRange \<and>
     writeCommandLogFile w \<noteq> Inl IndexOutOfRange \<and>
     (\<forall>ms. Update upd m w ms \<noteq> Inl IndexOutOfRange) \<and>
     (\<forall>ms m' w' c. Update upd m w ms = Inr (m', w', c) \<longrightarrow>
        length (stages w') = length (stages w) \<and>
        (stageIndex w' = stageIndex w \<or>
         stageIndex w' = stageIndex w + 1 \<and> stageIndex w + 1 < length (stages w))) \<and>
     (\<forall>w' ms. runStage w = Inr (w', ms) \<longrightarrow>
        length (stages w') = length (stages w) \<and> stageIndex w' = stageIndex w)"
proof -
  have "cursor_inv (initial_world stgs lf ce clk)"
    using assms(1) by (simp add: cursor_inv_def initial_world_def)
  from reach_cursor_inv [OF assms(2) this]
  have b: "stageIndex w < length (stages w)" by (simp add: cursor_inv_def)
  have r: "runStage w \<noteq> Inl IndexOutOfRange"
    using b by (simp add: runStage_def Let_def split: func.splits)
  have v: "View fg sv m w \<noteq> Inl IndexOutOfRange"
    using b by (simp add: View_def)
  have l: "writeCommandLogFile w \<noteq> Inl IndexOutOfRange"
    using b by (simp add: writeCommandLogFile_def Let_def split: option.splits)
  have u: "\<forall>ms. Update upd m w ms \<noteq> Inl IndexOutOfRange"
  proof
    fix ms
    show "Update upd m w ms \<noteq> Inl IndexOutOfRange"
      using b l by (cases ms) (auto simp: Update_def Let_def split: option.splits sum.splits prod.splits)
  qed
  have s: "\<forall>ms m' w' c. Update upd m w ms = Inr (m', w', c) \<longrightarrow>
        length (stages w') = length (stages w) \<and>
        (stageIndex w' = stageIndex w \<or>
         stageIndex w' = stageIndex w + 1 \<and> stageIndex w + 1 < length (stages w))"
  proof (intro allI impI)
    fix ms m' w' c
    assume "Update upd m w ms = Inr (m', w', c)"
    from Update_cases [OF this]
    show "length (stages w') = length (stages w) \<and>
        (stageIndex w' = stageIndex w \<or>
         stageIndex w' = stageIndex w + 1 \<and> stageIndex w + 1 < length (stages w))"
      by (auto simp: log_effect_fields split: if_splits)
  qed
  have g: "\<forall>w' ms. runStage w = Inr (w', ms) \<longrightarrow>
        length (stages w') = length (stages w) \<and> stageIndex w' = stageIndex w"
    using runStage_shape by blast
  from b r v l u s g show ?thesis by blast
qed

theorem cursor_in_bounds_witness:
  "stages_main \<noteq> [] \<and>
   reach example_spinner_Update (initialModel 0, initial_world stages_main None None ''t'')
     (initialModel 0, initial_world stages_main None None ''t''\<lparr>stageIndex := 1,
        stages := stages_main[0 := (stages_main ! 0)\<lparr>IsComplete := True\<rparr>],
        trace := [PredicateCalled 0 False, ActionCalled 0 None]\<rparr>) \<and>
   runStage (initial_world stages_main None None ''t''\<lparr>stageIndex := 1,
        stages := stages_main[0 := (stages_main ! 0)\<lparr>IsComplete := True\<rparr>],
        trace := [PredicateCalled 0 False, ActionCalled 0 None]\<rparr>) \<noteq> Inl IndexOutOfRange"
proof -
  let ?c0 = "(initialModel (0::nat), initial_world stages_main None None ''t'')"
  let ?w1 = "initial_world stages_main None None ''t''\<lparr>
        stages := stages_main[0 := (stages_main ! 0)\<lparr>Error := None\<rparr>],
        trace := [PredicateCalled 0 False, ActionCalled 0 None]\<rparr>"
  let ?w2 = "initial_world stages_main None None ''t''\<lparr>stageIndex := 1,
        stages := stages_main[0 := (stages_main ! 0)\<lparr>IsComplete := True\<rparr>],
        trace := [PredicateCalled 0 False, ActionCalled 0 None]\<rparr>"
  have ne: "stages_main \<noteq> []" by (simp add: stages_main_def)
  have "runStage (snd ?c0) = Inr (?w1, StageCompleteMsg)"
    by (simp add: runStage_def initial_world_def stages_main_def)
  with reach_start [of example_spinner_Update ?c0]
  have "reach example_spinner_Update ?c0 (initialModel 0, ?w1)"
    using reach_runStage [of example_spinner_Update ?c0 "initialModel 0" "snd ?c0"] by simp
  moreover have "Update example_spinner_Update (initialModel 0) ?w1 StageCompleteMsg =
      Inr (initialModel 0, ?w2, RunStage)"
    by (simp add: Update_def initial_world_def stages_main_def)
  ultimately have re: "reach example_spinner_Update ?c0 (initialModel 0, ?w2)"
    by (rule reach_Update)
  from cursor_in_bounds [OF ne re] ne re show ?thesis by blast
qed

subsection \<open>C10: the command log stays empty\<close>

text \<open>
  C10. The command log is empty at the start and in every state reached by steps of
  \<open>Update\<close> and \<open>runStage\<close>: neither calls \<open>logCommand\<close>. So the log file is what it was
  before the run, or a failure log whose steps-taken section has no line between its banner
  and its closing line.
\<close>

theorem commandLog_never_appended:
  assumes "reach upd (m0, initial_world stgs lf ce clk) (m, w)"
  shows "commandLog w = [] \<and>
     (logFile w = lf \<or> (\<exists>e. logFile w = Some (log_text clk [] e))) \<and>
     steps_section [] =
       banner @ ''Human legible log of steps taken and commands run up to the point of failure:'' @ nl @
       banner @ ''^ The above command is likely the one that caused the error!'' @ nl"
proof -
  have "log_inv lf clk (snd (m, w))"
    using assms
  proof (rule reach_invariant)
    show "log_inv lf clk (snd (m0, initial_world stgs lf ce clk))"
      by (simp add: log_inv_def initial_world_def)
  qed (auto intro: log_inv_Update log_inv_runStage)
  then show ?thesis by (simp add: log_inv_def steps_section_def)
qed

theorem commandLog_never_appended_witness:
  "reach example_spinner_Update (initialModel 0, initial_world stages_main None None ''t'')
     (initialModel 0\<lparr>model_Error := Some ''This one errored''\<rparr>, world_main_failed) \<and>
   commandLog world_main_failed = [] \<and>
   logFile world_main_failed = Some (log_text ''t'' [] ''This one errored'')"
  using commandLog_never_appended [OF reach_main_failed] reach_main_failed
  by (simp add: world_main_failed_def)

end
